theory Spec2Isabelle
  imports Complex_Main "HOL-Library.AList" "HOL-Library.Char_ord" "HOL-Library.List_Lexorder" "HOL-Library.Product_Lexorder"
begin

text \<open>
  A shallow embedding of the core of \<^verbatim>\<open>incucyte_plotter_app.py\<close>: time coercion
  (\<^verbatim>\<open>_coerce_time\<close>), the replicate-suffix pattern (\<^verbatim>\<open>_base_group_name\<close> and the wide
  branch), format detection and normalisation (\<^verbatim>\<open>read_incucyte_csv\<close>) and aggregation
  (\<^verbatim>\<open>aggregate_mean_sd\<close>).
\<close>

section \<open>Strings\<close>

text \<open>
  Python strings are sequences of code points. A \<^typ>\<open>char\<close> stands for a code point below 256
  (Latin-1); on that range \<^verbatim>\<open>\d\<close> and \<^verbatim>\<open>[0-9]\<close> both mean the ten ASCII digits, and
  \<^verbatim>\<open>str.lower\<close> maps \<^verbatim>\<open>A-Z\<close> and the accented capitals \<^verbatim>\<open>0xC0-0xDE\<close> (without the
  multiplication sign \<^verbatim>\<open>0xD7\<close>) 32 places up.
\<close>

definition is_digit :: "char \<Rightarrow> bool" where
  "is_digit c = (c \<in> set ''0123456789'')"

definition lower_char :: "char \<Rightarrow> char" where
  "lower_char c =
     (let k = (of_char c :: nat)
      in if (65 \<le> k \<and> k \<le> 90) \<or> (192 \<le> k \<and> k \<le> 222 \<and> k \<noteq> 215)
         then char_of (k + 32) else c)"

definition lower :: "string \<Rightarrow> string" where
  "lower s = map lower_char s"

definition newline :: char where
  "newline = CHR 0x0A"

definition contains :: "string \<Rightarrow> string \<Rightarrow> bool" where
  \<comment> \<open>\<^verbatim>\<open>p in s\<close>\<close>
  "contains s p = list_ex (\<lambda>i. take (length p) (drop i s) = p) [0..<Suc (length s)]"

section \<open>The replicate-suffix pattern\<close>

text \<open>
  \<^verbatim>\<open>^(.*)_(R\d+|Rep\d+|rep\d+)$\<close> is used twice, by \<^verbatim>\<open>re.match\<close> in
  \<^verbatim>\<open>_base_group_name\<close> and by \<^verbatim>\<open>str.extract\<close> in the wide branch. In Python \<^verbatim>\<open>$\<close>
  matches at the end of the string and also just before a line feed that ends the string,
  and \<^verbatim>\<open>.\<close> matches every character but the line feed. The second group holds no
  underscore, so the only candidate split is at the last underscore of the matched text.
\<close>

definition digits1 :: "string \<Rightarrow> bool" where
  \<comment> \<open>\<^verbatim>\<open>\d+\<close> against a whole string\<close>
  "digits1 ds = (ds \<noteq> [] \<and> list_all is_digit ds)"

definition is_tag :: "string \<Rightarrow> bool" where
  \<comment> \<open>\<^verbatim>\<open>R\d+|Rep\d+|rep\d+\<close> against a whole string\<close>
  "is_tag t =
     ((take 1 t = ''R'' \<and> digits1 (drop 1 t))
      \<or> (take 3 t = ''Rep'' \<and> digits1 (drop 3 t))
      \<or> (take 3 t = ''rep'' \<and> digits1 (drop 3 t)))"

definition dollar_subject :: "string \<Rightarrow> string" where
  \<comment> \<open>the text that a match anchored by \<^verbatim>\<open>^\<close> and \<^verbatim>\<open>$\<close> has to cover\<close>
  "dollar_subject s = (if s \<noteq> [] \<and> last s = newline then butlast s else s)"

fun split_last_underscore :: "string \<Rightarrow> (string \<times> string) option" where
  "split_last_underscore [] = None"
| "split_last_underscore (c # cs) =
     (case split_last_underscore cs of
        Some (b, t) \<Rightarrow> Some (c # b, t)
      | None \<Rightarrow> if c = CHR ''_'' then Some ([], cs) else None)"

definition replicate_suffix :: "string \<Rightarrow> (string \<times> string) option" where
  \<comment> \<open>the two groups of a match, \<open>None\<close> when the pattern does not match\<close>
  "replicate_suffix s =
     (case split_last_underscore (dollar_subject s) of
        None \<Rightarrow> None
      | Some (b, t) \<Rightarrow> if is_tag t \<and> newline \<notin> set b then Some (b, t) else None)"

definition base_group_name :: "string \<Rightarrow> string" where
  "base_group_name colname =
     (case replicate_suffix colname of Some (b, t) \<Rightarrow> b | None \<Rightarrow> colname)"

text \<open>The resolver in the words of the specification.\<close>

definition spec_tag :: "string \<Rightarrow> bool" where
  "spec_tag t =
     (\<exists>ds. ds \<noteq> [] \<and> list_all is_digit ds
        \<and> (t = ''R'' @ ds \<or> t = ''Rep'' @ ds \<or> t = ''rep'' @ ds))"

definition ends_in_tag :: "string \<Rightarrow> string \<Rightarrow> string \<Rightarrow> bool" where
  "ends_in_tag s b t = (s = b @ ''_'' @ t \<and> spec_tag t)"

section \<open>Numbers and cells\<close>

text \<open>
  A float that is not NaN is a real number or one of the two infinities; NaN, the missing
  value of pandas, is \<open>None\<close> of an option. A cell of a data frame read by
  \<^verbatim>\<open>pd.read_csv\<close> is an integer, a float, a string or NaN (boolean columns are left out).
\<close>

datatype fnum = Fin real | PInf | NInf

datatype cell = IntC int | FloatC fnum | StrC string | NaN

definition is_space :: "char \<Rightarrow> bool" where
  "is_space c = (c \<in> set [CHR '' '', CHR 0x09, CHR 0x0A, CHR 0x0B, CHR 0x0C, CHR 0x0D])"

definition digit_val :: "char \<Rightarrow> nat" where
  "digit_val c = of_char c - 48"

definition nat_of_digits :: "string \<Rightarrow> nat" where
  "nat_of_digits ds = foldl (\<lambda>a d. 10 * a + digit_val d) 0 ds"

definition split_sign :: "string \<Rightarrow> bool \<times> string" where
  \<comment> \<open>an optional sign; \<open>True\<close> for minus\<close>
  "split_sign s =
     (case s of
        c # cs \<Rightarrow> if c = CHR ''-'' then (True, cs) else if c = CHR ''+'' then (False, cs) else (False, s)
      | [] \<Rightarrow> (False, s))"

definition parse_exponent :: "string \<Rightarrow> int option" where
  \<comment> \<open>what may follow the mantissa: nothing, or \<^verbatim>\<open>e\<close> with a signed integer\<close>
  "parse_exponent s =
     (case s of
        [] \<Rightarrow> Some 0
      | c # cs \<Rightarrow>
          if c = CHR ''e'' \<or> c = CHR ''E''
          then (let (neg, ds) = split_sign cs
                in if digits1 ds
                   then Some (if neg then - int (nat_of_digits ds) else int (nat_of_digits ds))
                   else None)
          else None)"

definition parse_decimal :: "string \<Rightarrow> real option" where
  \<comment> \<open>sign, digits with an optional fraction, optional exponent\<close>
  "parse_decimal s =
     (let (neg, u) = split_sign s;
          ip = takeWhile is_digit u;
          r1 = dropWhile is_digit u;
          fp = (case r1 of c # cs \<Rightarrow> if c = CHR ''.'' then takeWhile is_digit cs else [] | [] \<Rightarrow> []);
          r2 = (case r1 of c # cs \<Rightarrow> if c = CHR ''.'' then dropWhile is_digit cs else r1 | [] \<Rightarrow> [])
      in if ip = [] \<and> fp = [] then None
         else (case parse_exponent r2 of
                 None \<Rightarrow> None
               | Some e \<Rightarrow>
                   (let m = real (nat_of_digits ip) + real (nat_of_digits fp) / 10 ^ length fp;
                        x = (if 0 \<le> e then m * 10 ^ nat e else m / 10 ^ nat (- e))
                    in Some (if neg then - x else x))))"

definition parse_float :: "string \<Rightarrow> fnum option" where
  \<comment> \<open>\<^verbatim>\<open>pd.to_numeric(..., errors="coerce")\<close> on one string: the spellings of infinity and
      NaN, else a decimal number with blanks around it allowed\<close>
  "parse_float s =
     (let l = lower s
      in if l \<in> set [''inf'', ''+inf'', ''infinity'', ''+infinity''] then Some PInf
         else if l \<in> set [''-inf'', ''-infinity''] then Some NInf
         else map_option Fin
                (parse_decimal (rev (dropWhile is_space (rev (dropWhile is_space s))))))"

fun to_numeric :: "cell \<Rightarrow> fnum option" where
  \<comment> \<open>\<^verbatim>\<open>pd.to_numeric(..., errors="coerce")\<close> on one cell\<close>
  "to_numeric (IntC i) = Some (Fin (of_int i))"
| "to_numeric (FloatC x) = Some x"
| "to_numeric (StrC s) = parse_float s"
| "to_numeric NaN = None"

fun nat_digits :: "nat \<Rightarrow> string" where
  "nat_digits k =
     (if k < 10 then [char_of (48 + k)] else nat_digits (k div 10) @ [char_of (48 + k mod 10)])"

definition str_int :: "int \<Rightarrow> string" where
  "str_int i = (if i < 0 then CHR ''-'' # nat_digits (nat (- i)) else nat_digits (nat i))"

fun astype_str :: "(fnum \<Rightarrow> string) \<Rightarrow> cell \<Rightarrow> string" where
  \<comment> \<open>\<^verbatim>\<open>.astype(str)\<close> on one cell; the text of a float is Python's \<^verbatim>\<open>repr\<close>, a function of the
      interpreter that is passed in as \<open>float_repr\<close>\<close>
  "astype_str float_repr (IntC i) = str_int i"
| "astype_str float_repr (FloatC x) = float_repr x"
| "astype_str float_repr (StrC s) = s"
| "astype_str float_repr NaN = ''nan''"

section \<open>Time coercion\<close>

definition match_here :: "string \<Rightarrow> string" where
  \<comment> \<open>the greedy match of \<^verbatim>\<open>[0-9]*\.?[0-9]+\<close> at a position where one exists\<close>
  "match_here s =
     (let d = takeWhile is_digit s; r = dropWhile is_digit s
      in case r of
           c # cs \<Rightarrow>
             if c = CHR ''.'' \<and> cs \<noteq> [] \<and> is_digit (hd cs)
             then d @ ''.'' @ takeWhile is_digit cs else d
         | [] \<Rightarrow> d)"

fun extract_number :: "string \<Rightarrow> string option" where
  \<comment> \<open>\<^verbatim>\<open>.str.extract(r"([0-9]*\.?[0-9]+)")[0]\<close> on one string: the leftmost match\<close>
  "extract_number [] = None"
| "extract_number (c # cs) =
     (if is_digit c \<or> (c = CHR ''.'' \<and> cs \<noteq> [] \<and> is_digit (hd cs))
      then Some (match_here (c # cs))
      else extract_number cs)"

definition extract_cell :: "(fnum \<Rightarrow> string) \<Rightarrow> cell \<Rightarrow> fnum option" where
  \<comment> \<open>the fallback of \<^verbatim>\<open>_coerce_time\<close> on one cell\<close>
  "extract_cell float_repr v =
     (case extract_number (astype_str float_repr v) of
        None \<Rightarrow> None
      | Some frag \<Rightarrow> parse_float frag)"

definition coerce_time :: "(fnum \<Rightarrow> string) \<Rightarrow> cell list \<Rightarrow> fnum option list" where
  "coerce_time float_repr col =
     (let c = map to_numeric col
      in if list_all (\<lambda>x. x \<noteq> None) c then c
         else map (extract_cell float_repr) col)"

text \<open>
  The pattern of the fallback in the words of the specification: optional digits, an
  optional decimal point, digits.
\<close>

definition decimal_shape :: "string \<Rightarrow> bool" where
  "decimal_shape m =
     (\<exists>d e. list_all is_digit d \<and> digits1 e \<and> (m = d @ e \<or> m = d @ ''.'' @ e))"

section \<open>Data frames\<close>

text \<open>
  A data frame is the list of its columns in header order, each with its name and its cells.
  \<^verbatim>\<open>pd.read_csv\<close> itself is not modelled: \<open>read_incucyte_csv\<close> starts from the frame that
  it returns. The embedding follows pandas on frames whose header names stay pairwise
  different when lower-cased and whose columns have one length (\<open>wf_frame\<close>); a frame with
  two names that differ in case only would end up with two columns of one name, on which
  pandas raises or keeps both. The theorems about the rows of a normalised frame assume
  \<open>wf_frame\<close>.
\<close>

type_synonym frame = "(string \<times> cell list) list"

definition columns :: "frame \<Rightarrow> string list" where
  "columns df = map fst df"

definition column :: "frame \<Rightarrow> string \<Rightarrow> cell list" where
  \<comment> \<open>\<^verbatim>\<open>df[c]\<close>\<close>
  "column df c = (case map_of df c of Some vs \<Rightarrow> vs | None \<Rightarrow> [])"

definition nrows :: "frame \<Rightarrow> nat" where
  "nrows df = (case df of [] \<Rightarrow> 0 | (c, vs) # rest \<Rightarrow> length vs)"

definition wf_frame :: "frame \<Rightarrow> bool" where
  "wf_frame df =
     (distinct (map lower (columns df)) \<and> list_all (\<lambda>(c, vs). length vs = nrows df) df)"

definition rename :: "frame \<Rightarrow> (string \<rightharpoonup> string) \<Rightarrow> frame" where
  \<comment> \<open>\<^verbatim>\<open>df.rename(columns=m)\<close>\<close>
  "rename df m = map (\<lambda>(c, vs). (case m c of Some c' \<Rightarrow> c' | None \<Rightarrow> c, vs)) df"

definition lower_map_of :: "string list \<Rightarrow> (string \<times> string) list" where
  \<comment> \<open>\<^verbatim>\<open>{c.lower(): c for c in df.columns}\<close>, a dictionary as the list of its items: a later
      column overwrites the entry of an earlier one with the same key\<close>
  "lower_map_of cols = fold (\<lambda>c m. AList.update (lower c) c m) cols []"

datatype error = ValueError string

definition format_message :: string where
  "format_message =
     ''Could not detect wide or tidy format. Need either:'' @ [newline]
     @ ''  Wide: 'time' + one column per group'' @ [newline]
     @ ''  Tidy: time, group, (replicate), value''"

definition melt_message :: string where
  "melt_message = ''value_name (value) cannot match an element in the DataFrame columns.''"

record melted =
  m_time :: cell
  m_col :: string
  m_value :: cell

definition melt :: "frame \<Rightarrow> string list \<Rightarrow> error + melted list" where
  \<comment> \<open>\<^verbatim>\<open>df.melt(id_vars="time", value_vars=..., var_name="col", value_name="value")\<close>:
      the value columns one after the other, each beside the time column; pandas refuses a
      frame that already has a column called \<^verbatim>\<open>value\<close>\<close>
  "melt df value_vars =
     (if ''value'' \<in> set (columns df) then Inl (ValueError melt_message)
      else Inr (concat (map (\<lambda>c. map2 (\<lambda>t v. \<lparr>m_time = t, m_col = c, m_value = v\<rparr>)
                                     (column df ''time'') (column df c))
                            value_vars)))"

text \<open>
  The table before \<^verbatim>\<open>dropna\<close>: time and value are coerced and may be missing.
\<close>

record long_row =
  l_time :: "fnum option"
  l_group :: string
  l_replicate :: string
  l_value :: "fnum option"

record 'n tidy_record =
  t_time :: 'n
  t_group :: string
  t_replicate :: string
  t_value :: 'n

text \<open>
  A tidy table is its records in row order; \<open>categories\<close> is the category list of the
  \<^verbatim>\<open>group\<close> column when that column is a \<^verbatim>\<open>pd.Categorical\<close>, and \<open>None\<close> when it holds
  plain strings.
\<close>

record 'n tidy_table =
  rows :: "'n tidy_record list"
  categories :: "string list option"

definition dropna_row :: "long_row \<Rightarrow> fnum tidy_record option" where
  "dropna_row r =
     (case (l_time r, l_value r) of
        (Some t, Some v) \<Rightarrow>
          Some \<lparr>t_time = t, t_group = l_group r, t_replicate = l_replicate r, t_value = v\<rparr>
      | _ \<Rightarrow> None)"

definition dropna :: "long_row list \<Rightarrow> fnum tidy_record list" where
  \<comment> \<open>\<^verbatim>\<open>.dropna(subset=["time", "value"])[["time", "group", "replicate", "value"]]\<close>\<close>
  "dropna long = List.map_filter dropna_row long"

definition wide_long :: "(fnum \<Rightarrow> string) \<Rightarrow> melted list \<Rightarrow> long_row list" where
  \<comment> \<open>lines 57 to 78 without the categorical: group and replicate from the column name of
      each row, time of the whole column coerced, value made numeric\<close>
  "wide_long float_repr long0 =
     map2 (\<lambda>r t.
            \<lparr>l_time = t,
             l_group = (case replicate_suffix (m_col r) of Some (b, g) \<Rightarrow> b | None \<Rightarrow> m_col r),
             l_replicate = (case replicate_suffix (m_col r) of Some (b, g) \<Rightarrow> g | None \<Rightarrow> ''R1''),
             l_value = to_numeric (m_value r)\<rparr>)
          long0 (coerce_time float_repr (map m_time long0))"

definition group_order :: "string list \<Rightarrow> string list" where
  \<comment> \<open>the loop of lines 65 to 71 with its state \<open>(group_order, seen)\<close>\<close>
  "group_order value_cols_in_order =
     fst (fold (\<lambda>c (order, seen).
                  let base = base_group_name c
                  in if base \<notin> seen then (order @ [base], insert base seen) else (order, seen))
               value_cols_in_order ([], {}))"

definition value_cols_in_order :: "frame \<Rightarrow> (string \<times> string) list \<Rightarrow> string list" where
  \<comment> \<open>lines 46 and 47\<close>
  "value_cols_in_order df lower_map =
     (let time_col = the (map_of lower_map ''time'')
      in filter (\<lambda>c. c \<noteq> time_col) (columns df))"

definition wide_melt :: "frame \<Rightarrow> (string \<times> string) list \<Rightarrow> error + melted list" where
  \<comment> \<open>lines 46 to 55\<close>
  "wide_melt df lower_map =
     (let time_col = the (map_of lower_map ''time'');
          df1 = rename df [time_col \<mapsto> ''time'']
      in melt df1 (value_cols_in_order df lower_map))"

definition wide_format ::
  "(fnum \<Rightarrow> string) \<Rightarrow> frame \<Rightarrow> (string \<times> string) list \<Rightarrow> error + fnum tidy_table" where
  \<comment> \<open>the wide branch, lines 46 to 81; every group is one of the categories, so that
      \<^verbatim>\<open>pd.Categorical\<close> leaves the group of each row as it is\<close>
  "wide_format float_repr df lower_map =
     (case wide_melt df lower_map of
        Inl e \<Rightarrow> Inl e
      | Inr long0 \<Rightarrow>
          Inr \<lparr>rows = dropna (wide_long float_repr long0),
               categories = Some (group_order (value_cols_in_order df lower_map))\<rparr>)"

definition tidy_long :: "(fnum \<Rightarrow> string) \<Rightarrow> frame \<Rightarrow> long_row list" where
  \<comment> \<open>lines 94 to 97 on the frame with its columns renamed\<close>
  "tidy_long float_repr df =
     map (\<lambda>(t, g, r, v). \<lparr>l_time = t, l_group = g, l_replicate = r, l_value = v\<rparr>)
       (zip (coerce_time float_repr (column df ''time''))
         (zip (map (astype_str float_repr) (column df ''group''))
           (zip (map (astype_str float_repr) (column df ''replicate''))
                (map to_numeric (column df ''value'')))))"

definition tidy_renamed :: "frame \<Rightarrow> (string \<times> string) list \<Rightarrow> string set \<Rightarrow> frame" where
  \<comment> \<open>lines 86 to 92: the recognised columns under their lower-case names, and the
      replicate column added with the sentinel when there is none\<close>
  "tidy_renamed df lower_map cols_lower =
     (let df1 = rename df [the (map_of lower_map ''time'') \<mapsto> ''time'',
                           the (map_of lower_map ''group'') \<mapsto> ''group'',
                           the (map_of lower_map ''value'') \<mapsto> ''value'']
      in if ''replicate'' \<notin> cols_lower
         then df1 @ [(''replicate'', replicate (nrows df1) (StrC ''R1''))]
         else rename df1 [the (map_of lower_map ''replicate'') \<mapsto> ''replicate''])"

definition tidy_format ::
  "(fnum \<Rightarrow> string) \<Rightarrow> frame \<Rightarrow> (string \<times> string) list \<Rightarrow> string set \<Rightarrow> error + fnum tidy_table" where
  \<comment> \<open>the tidy branch, lines 86 to 100\<close>
  "tidy_format float_repr df lower_map cols_lower =
     Inr \<lparr>rows = dropna (tidy_long float_repr (tidy_renamed df lower_map cols_lower)),
          categories = None\<rparr>"

definition read_incucyte_csv :: "(fnum \<Rightarrow> string) \<Rightarrow> frame \<Rightarrow> error + fnum tidy_table" where
  "read_incucyte_csv float_repr df =
     (let lower_map = lower_map_of (columns df);
          cols_lower = set (map fst lower_map)
      in if ''time'' \<in> cols_lower \<and> \<not> {''group'', ''replicate'', ''value''} \<subseteq> cols_lower
         then wide_format float_repr df lower_map
         else if {''time'', ''group'', ''value''} \<subseteq> cols_lower
         then tidy_format float_repr df lower_map cols_lower
         else Inl (ValueError format_message))"

primrec unique :: "'a list \<Rightarrow> 'a list" where
  \<comment> \<open>\<^verbatim>\<open>pd.unique\<close>: the distinct values in the order of their first appearance\<close>
  "unique [] = []"
| "unique (x # xs) = x # removeAll x (unique xs)"

definition groups :: "'n tidy_table \<Rightarrow> string list" where
  \<comment> \<open>line 165: \<^verbatim>\<open>list(pd.unique(tidy["group"].astype(str)))\<close>\<close>
  "groups tidy = unique (map t_group (rows tidy))"

text \<open>The detection rule in the words of the specification.\<close>

definition has_column :: "frame \<Rightarrow> string \<Rightarrow> bool" where
  "has_column df name = list_ex (\<lambda>c. lower c = name) (columns df)"

definition is_wide :: "frame \<Rightarrow> bool" where
  "is_wide df =
     (has_column df ''time''
      \<and> \<not> (has_column df ''group'' \<and> has_column df ''replicate'' \<and> has_column df ''value''))"

definition is_tidy :: "frame \<Rightarrow> bool" where
  "is_tidy df =
     (\<not> is_wide df \<and> has_column df ''time'' \<and> has_column df ''group'' \<and> has_column df ''value'')"

section \<open>Aggregation\<close>

text \<open>
  The aggregator is modelled on tidy tables whose time and value are finite, the invariant of
  a tidy record in the data model, with floats read as real numbers. Data frames are objects:
  a variable holds a reference into a heap, \<^verbatim>\<open>df.copy()\<close> allocates a new object and
  \<^verbatim>\<open>d["time_bin"] = ...\<close> updates the object that \<^verbatim>\<open>d\<close> refers to.

  The code calls \<^verbatim>\<open>groupby\<close> without \<^verbatim>\<open>observed\<close>, so the default of the installed pandas
  decides what happens to a categorical group column (the wide branch makes one): with
  \<^verbatim>\<open>observed=True\<close> (the default from pandas 3) the result has the keys that occur, with
  \<^verbatim>\<open>observed=False\<close> (the default before) it has every combination of a category with a
  time that occurs. The flag is the parameter \<open>observed\<close>. A categorical column holds only
  its categories (\<open>categorical_ok\<close>).
\<close>

record tidy_frame = "real tidy_table" +
  time_bin :: "real list option"

type_synonym heap = "tidy_frame list"

definition categorical_ok :: "tidy_frame \<Rightarrow> bool" where
  "categorical_ok fr =
     (case categories fr of
        None \<Rightarrow> True
      | Some cs \<Rightarrow> distinct cs \<and> list_all (\<lambda>r. t_group r \<in> set cs) (rows fr))"

record stats_record =
  s_group :: string
  s_time :: real
  s_mean :: "real option"
  s_sd :: "real option"
  s_n :: nat

definition mean :: "real list \<Rightarrow> real option" where
  \<comment> \<open>NaN for a group without values\<close>
  "mean vs = (if vs = [] then None else Some (sum_list vs / real (length vs)))"

definition std :: "real list \<Rightarrow> real option" where
  \<comment> \<open>the sample standard deviation of pandas (\<^verbatim>\<open>ddof=1\<close>), NaN below two values\<close>
  "std vs =
     (if length vs < 2 then None
      else Some (sqrt (sum_list (map (\<lambda>v. (v - sum_list vs / real (length vs))\<^sup>2) vs)
                       / real (length vs - 1))))"

definition time_bucket :: "real \<Rightarrow> real \<Rightarrow> real" where
  \<comment> \<open>\<^verbatim>\<open>np.floor(time / interval_hours) * interval_hours\<close>\<close>
  "time_bucket interval_hours t = real_of_int \<lfloor>t / interval_hours\<rfloor> * interval_hours"

definition group_rank :: "string list option \<Rightarrow> string \<Rightarrow> nat \<times> string" where
  \<comment> \<open>the sort key of a group: its position among the categories of a categorical column,
      the string itself otherwise\<close>
  "group_rank cats g =
     (case cats of
        None \<Rightarrow> (0, g)
      | Some cs \<Rightarrow> (length (takeWhile (\<lambda>c. c \<noteq> g) cs), []))"

definition result_keys ::
  "bool \<Rightarrow> string list option \<Rightarrow> (string \<times> real) list \<Rightarrow> (string \<times> real) list" where
  \<comment> \<open>the keys of the result, before sorting, from the keys of the rows\<close>
  "result_keys observed cats ks =
     (case cats of
        None \<Rightarrow> unique ks
      | Some cs \<Rightarrow> if observed then unique ks else List.product cs (unique (map snd ks)))"

definition groupby_agg ::
  "bool \<Rightarrow> string list option \<Rightarrow> ((string \<times> real) \<times> real) list \<Rightarrow> stats_record list" where
  \<comment> \<open>\<^verbatim>\<open>.groupby(["group", time_col], as_index=False)["value"].agg(mean="mean", sd="std",
      n="count")\<close> on the rows given as (key, value): one row for each key of the result, the
      keys in sorted order\<close>
  "groupby_agg observed cats kvs =
     map (\<lambda>k. let vs = map snd (filter (\<lambda>kv. fst kv = k) kvs)
              in \<lparr>s_group = fst k, s_time = snd k, s_mean = mean vs, s_sd = std vs,
                  s_n = length vs\<rparr>)
         (sort_key (\<lambda>k. (group_rank cats (fst k), snd k))
            (result_keys observed cats (map fst kvs)))"

definition copy :: "heap \<Rightarrow> nat \<Rightarrow> heap \<times> nat" where
  \<comment> \<open>\<^verbatim>\<open>df.copy()\<close>: the new heap and the reference to the copy\<close>
  "copy h r = (h @ [h ! r], length h)"

definition aggregate_mean_sd ::
  "bool \<Rightarrow> heap \<Rightarrow> nat \<Rightarrow> real option \<Rightarrow> (stats_record list \<times> heap) option" where
  \<comment> \<open>the stats table and the heap after the call; \<open>None\<close> when \<open>df\<close> refers to no object\<close>
  "aggregate_mean_sd observed h df interval_hours =
     (if \<not> df < length h then None
      else
        let (h1, d) = copy h df;
            binning = (case interval_hours of None \<Rightarrow> False | Some i \<Rightarrow> 0 < i);
            h2 = (if binning
                  then h1[d := (h1 ! d)\<lparr>time_bin :=
                         Some (map (\<lambda>r. time_bucket (the interval_hours) (t_time r))
                                   (rows (h1 ! d)))\<rparr>]
                  else h1);
            time_col = (if binning then the (time_bin (h2 ! d))
                        else map t_time (rows (h2 ! d)));
            group_stats =
              groupby_agg observed (categories (h2 ! d))
                (map2 (\<lambda>r t. ((t_group r, t), t_value r)) (rows (h2 ! d)) time_col)
        in Some (group_stats, h2))"

text \<open>The grouping key of a record in the words of the specification.\<close>

definition grouping_key :: "real option \<Rightarrow> real tidy_record \<Rightarrow> string \<times> real" where
  "grouping_key interval_hours r =
     (case interval_hours of
        None \<Rightarrow> (t_group r, t_time r)
      | Some i \<Rightarrow> if 0 < i then (t_group r, real_of_int \<lfloor>t_time r / i\<rfloor> * i)
                  else (t_group r, t_time r))"

definition key_values :: "real option \<Rightarrow> real tidy_record list \<Rightarrow> string \<times> real \<Rightarrow> real list" where
  \<comment> \<open>the values of the records with a given key, in row order\<close>
  "key_values interval_hours rs k =
     map t_value (filter (\<lambda>r. grouping_key interval_hours r = k) rs)"

definition stats_of :: "bool \<Rightarrow> tidy_frame \<Rightarrow> real option \<Rightarrow> stats_record list" where
  \<comment> \<open>the stats table that \<open>aggregate_mean_sd\<close> returns for a frame held by a variable\<close>
  "stats_of observed fr interval_hours =
     (case aggregate_mean_sd observed [fr] 0 interval_hours of
        Some (st, h) \<Rightarrow> st
      | None \<Rightarrow> [])"

section \<open>The replicate-suffix resolver\<close>

lemma split_last_underscore_None:
  "split_last_underscore s = None \<longleftrightarrow> CHR ''_'' \<notin> set s"
  by (induction s) (auto split: option.splits)

lemma split_last_underscore_Some:
  "split_last_underscore s = Some (b, t) \<longleftrightarrow> s = b @ ''_'' @ t \<and> CHR ''_'' \<notin> set t"
proof (induction s arbitrary: b t)
  case Nil
  then show ?case by simp
next
  case (Cons c cs)
  show ?case
  proof (cases "split_last_underscore cs")
    case None
    then have "CHR ''_'' \<notin> set cs"
      by (simp add: split_last_underscore_None)
    then show ?thesis
      using None by (cases b) auto
  next
    case (Some p)
    obtain b' t' where p: "p = (b', t')" by (cases p)
    have cs: "cs = b' @ ''_'' @ t'" and t': "CHR ''_'' \<notin> set t'"
      using Some p Cons.IH [of b' t'] by simp_all
    show ?thesis
    proof (cases b)
      case Nil
      then show ?thesis using Some p cs by auto
    next
      case (Cons x b'')
      then show ?thesis using Some p Cons.IH [of b'' t] by auto
    qed
  qed
qed

lemma digits1_iff: "digits1 ds \<longleftrightarrow> ds \<noteq> [] \<and> list_all is_digit ds"
  by (simp add: digits1_def)

lemma is_tag_spec_tag: "is_tag t \<longleftrightarrow> spec_tag t"
proof
  assume "is_tag t"
  then consider "take 1 t = ''R''" "digits1 (drop 1 t)"
    | "take 3 t = ''Rep''" "digits1 (drop 3 t)"
    | "take 3 t = ''rep''" "digits1 (drop 3 t)"
    unfolding is_tag_def by blast
  then show "spec_tag t"
  proof cases
    case 1
    have "t = ''R'' @ drop 1 t" using 1(1) append_take_drop_id [of 1 t] by simp
    with 1(2) show ?thesis unfolding spec_tag_def digits1_iff by blast
  next
    case 2
    have "t = ''Rep'' @ drop 3 t" using 2(1) append_take_drop_id [of 3 t] by simp
    with 2(2) show ?thesis unfolding spec_tag_def digits1_iff by blast
  next
    case 3
    have "t = ''rep'' @ drop 3 t" using 3(1) append_take_drop_id [of 3 t] by simp
    with 3(2) show ?thesis unfolding spec_tag_def digits1_iff by blast
  qed
next
  assume "spec_tag t"
  then show "is_tag t"
    unfolding spec_tag_def is_tag_def digits1_iff by auto
qed

lemma underscore_not_digit: "\<not> is_digit (CHR ''_'')"
  by (simp add: is_digit_def)

lemma newline_not_digit: "\<not> is_digit newline"
  by (simp add: is_digit_def newline_def)

lemma spec_tag_no_underscore:
  assumes "spec_tag t"
  shows "CHR ''_'' \<notin> set t"
proof -
  obtain ds where ds: "list_all is_digit ds"
    and t: "t = ''R'' @ ds \<or> t = ''Rep'' @ ds \<or> t = ''rep'' @ ds"
    using assms unfolding spec_tag_def by blast
  have "CHR ''_'' \<notin> set ds"
    using ds underscore_not_digit by (auto simp: list_all_iff)
  with t show ?thesis by auto
qed

lemma dollar_subject_id: "newline \<notin> set s \<Longrightarrow> dollar_subject s = s"
  by (cases "s = []") (auto simp: dollar_subject_def dest: last_in_set)

lemma replicate_suffix_iff:
  assumes "newline \<notin> set s"
  shows "replicate_suffix s = Some (b, t) \<longleftrightarrow> ends_in_tag s b t"
proof
  assume "replicate_suffix s = Some (b, t)"
  then have "split_last_underscore s = Some (b, t)" and "is_tag t"
    using assms
    by (auto simp: replicate_suffix_def dollar_subject_id split: option.splits if_splits)
  then show "ends_in_tag s b t"
    by (simp add: split_last_underscore_Some ends_in_tag_def is_tag_spec_tag)
next
  assume e: "ends_in_tag s b t"
  then have s: "s = b @ ''_'' @ t" and t: "spec_tag t"
    by (simp_all add: ends_in_tag_def)
  have "split_last_underscore s = Some (b, t)"
    using s spec_tag_no_underscore [OF t] by (simp add: split_last_underscore_Some)
  moreover have "newline \<notin> set b" using assms s by simp
  ultimately show "replicate_suffix s = Some (b, t)"
    using assms t by (simp add: replicate_suffix_def dollar_subject_id is_tag_spec_tag)
qed

text \<open>
  C4, amended. For every identifier that holds no line feed, the resolver returns the pair
  (base, tag) exactly when the identifier is the base, an underscore and a tag of the form
  \<^verbatim>\<open>R<digits>\<close>, \<^verbatim>\<open>Rep<digits>\<close> or \<^verbatim>\<open>rep<digits>\<close>; then \<open>base_group_name\<close> is that base.
  When the identifier ends in no such tag the resolver returns no tag and
  \<open>base_group_name\<close> returns the identifier unchanged.
\<close>

theorem replicate_suffix_resolver:
  assumes "newline \<notin> set s"
  shows "(replicate_suffix s = Some (b, t) \<longleftrightarrow> ends_in_tag s b t)
    \<and> (ends_in_tag s b t \<longrightarrow> base_group_name s = b)
    \<and> ((\<forall>b' t'. \<not> ends_in_tag s b' t') \<longrightarrow> replicate_suffix s = None \<and> base_group_name s = s)"
proof (intro conjI impI)
  show "replicate_suffix s = Some (b, t) \<longleftrightarrow> ends_in_tag s b t"
    using assms by (rule replicate_suffix_iff)
next
  assume "ends_in_tag s b t"
  then have "replicate_suffix s = Some (b, t)"
    using assms by (simp add: replicate_suffix_iff)
  then show "base_group_name s = b"
    by (simp add: base_group_name_def)
next
  assume no: "\<forall>b' t'. \<not> ends_in_tag s b' t'"
  show "replicate_suffix s = None"
  proof (cases "replicate_suffix s")
    case None
    then show ?thesis .
  next
    case (Some p)
    then have "ends_in_tag s (fst p) (snd p)"
      using assms replicate_suffix_iff [of s "fst p" "snd p"] by simp
    with no show ?thesis by blast
  qed
  then show "base_group_name s = s"
    by (simp add: base_group_name_def)
qed

theorem replicate_suffix_resolver_witness:
  "newline \<notin> set ''DrugA_R1'' \<and> newline \<notin> set ''DrugA_Rep12'' \<and> newline \<notin> set ''ControlGroup''
   \<and> replicate_suffix ''DrugA_R1'' = Some (''DrugA'', ''R1'')
   \<and> base_group_name ''DrugA_R1'' = ''DrugA''
   \<and> replicate_suffix ''DrugA_Rep12'' = Some (''DrugA'', ''Rep12'')
   \<and> base_group_name ''DrugA_Rep12'' = ''DrugA''
   \<and> replicate_suffix ''ControlGroup'' = None
   \<and> base_group_name ''ControlGroup'' = ''ControlGroup''"
proof -
  have n1: "newline \<notin> set ''DrugA_R1''" and n2: "newline \<notin> set ''DrugA_Rep12''"
    and n3: "newline \<notin> set ''ControlGroup''"
    by (simp_all add: newline_def)
  have "is_tag ''R1''" and "is_tag ''Rep12''"
    by (simp_all add: is_tag_def digits1_def is_digit_def)
  then have e1: "ends_in_tag ''DrugA_R1'' ''DrugA'' ''R1''"
    and e2: "ends_in_tag ''DrugA_Rep12'' ''DrugA'' ''Rep12''"
    by (simp_all add: ends_in_tag_def is_tag_spec_tag)
  have e3: "\<forall>b' t'. \<not> ends_in_tag ''ControlGroup'' b' t'"
  proof (intro allI notI)
    fix b' t'
    assume "ends_in_tag ''ControlGroup'' b' t'"
    then have "''ControlGroup'' = b' @ ''_'' @ t'" by (simp add: ends_in_tag_def)
    then have "CHR ''_'' \<in> set ''ControlGroup''" by (metis in_set_conv_decomp append_Cons)
    then show False by simp
  qed
  show ?thesis
    using n1 n2 n3 e1 e2 e3
      replicate_suffix_resolver [OF n1, of "''DrugA''" "''R1''"]
      replicate_suffix_resolver [OF n2, of "''DrugA''" "''Rep12''"]
      replicate_suffix_resolver [OF n3, of "''''" "''''"]
    by blast
qed

theorem replicate_suffix_newline_counterexample:
  "replicate_suffix (''A_R1'' @ [newline]) = Some (''A'', ''R1'')
   \<and> \<not> ends_in_tag (''A_R1'' @ [newline]) ''A'' ''R1''
   \<and> base_group_name (''A_R1'' @ [newline]) = ''A''
   \<and> ends_in_tag (''A'' @ [newline] @ ''B_R1'') (''A'' @ [newline] @ ''B'') ''R1''
   \<and> replicate_suffix (''A'' @ [newline] @ ''B_R1'') = None
   \<and> base_group_name (''A'' @ [newline] @ ''B_R1'') = ''A'' @ [newline] @ ''B_R1''"
proof -
  have "is_tag ''R1''"
    by (simp add: is_tag_def digits1_def is_digit_def)
  then have "ends_in_tag (''A'' @ [newline] @ ''B_R1'') (''A'' @ [newline] @ ''B'') ''R1''"
    by (simp add: ends_in_tag_def is_tag_spec_tag)
  moreover have "replicate_suffix (''A_R1'' @ [newline]) = Some (''A'', ''R1'')"
    and "replicate_suffix (''A'' @ [newline] @ ''B_R1'') = None"
    by (simp_all add: replicate_suffix_def dollar_subject_def newline_def is_tag_def
          digits1_def is_digit_def)
  ultimately show ?thesis
    by (simp add: base_group_name_def ends_in_tag_def)
qed

section \<open>Time coercion\<close>

lemma length_coerce_time: "length (coerce_time f col) = length col"
  by (simp add: coerce_time_def Let_def)

lemma dot_not_digit: "\<not> is_digit (CHR ''.'')"
  by (simp add: is_digit_def)

lemma match_here_shape:
  assumes "is_digit c \<or> (c = CHR ''.'' \<and> cs \<noteq> [] \<and> is_digit (hd cs))"
  shows "decimal_shape (match_here (c # cs)) \<and> (\<exists>post. c # cs = match_here (c # cs) @ post)"
proof -
  define s where "s = c # cs"
  define d where "d = takeWhile is_digit s"
  define r where "r = dropWhile is_digit s"
  have split: "s = d @ r" by (simp add: d_def r_def)
  have alld: "list_all is_digit d"
    unfolding d_def list_all_iff using set_takeWhileD by fastforce
  have mh: "match_here s =
     (case r of
        c # cs \<Rightarrow>
          if c = CHR ''.'' \<and> cs \<noteq> [] \<and> is_digit (hd cs)
          then d @ ''.'' @ takeWhile is_digit cs else d
      | [] \<Rightarrow> d)"
    unfolding match_here_def Let_def d_def r_def by (rule refl)
  show ?thesis
  proof (cases "\<exists>r'. r = CHR ''.'' # r' \<and> r' \<noteq> [] \<and> is_digit (hd r')")
    case True
    then obtain r' where r: "r = CHR ''.'' # r'" and ne: "r' \<noteq> []" and hd: "is_digit (hd r')"
      by blast
    define e where "e = takeWhile is_digit r'"
    have m: "match_here s = d @ ''.'' @ e"
      using r ne hd by (simp add: mh e_def)
    have "e \<noteq> []" using ne hd by (cases r') (auto simp: e_def)
    moreover have "list_all is_digit e"
      unfolding e_def list_all_iff using set_takeWhileD by fastforce
    ultimately have "decimal_shape (match_here s)"
      unfolding decimal_shape_def digits1_def using alld m by blast
    moreover have "s = match_here s @ dropWhile is_digit r'"
    proof -
      have "r' = e @ dropWhile is_digit r'" by (simp add: e_def)
      then have "s = d @ ''.'' @ e @ dropWhile is_digit r'"
        using split r by simp
      then show ?thesis using m by simp
    qed
    ultimately show ?thesis unfolding s_def by blast
  next
    case False
    then have m: "match_here s = d"
      by (auto simp: mh split: list.splits)
    have "is_digit c"
    proof (rule ccontr)
      assume nd: "\<not> is_digit c"
      then have "c = CHR ''.''" and "cs \<noteq> []" and "is_digit (hd cs)"
        using assms by auto
      moreover have "r = c # cs" using nd by (simp add: r_def s_def)
      ultimately show False using False by blast
    qed
    then have "d \<noteq> []" by (simp add: d_def s_def)
    then have "digits1 d" using alld by (simp add: digits1_def)
    then have "decimal_shape (match_here s)"
      unfolding decimal_shape_def m
      by (intro exI [of _ "[]"] exI [of _ d]) simp
    moreover have "s = match_here s @ r" using m split by simp
    ultimately show ?thesis unfolding s_def by blast
  qed
qed

lemma extract_number_None: "extract_number s = None \<longleftrightarrow> \<not> list_ex is_digit s"
proof (induction s)
  case Nil
  then show ?case by simp
next
  case (Cons c cs)
  show ?case
  proof (cases "is_digit c \<or> (c = CHR ''.'' \<and> cs \<noteq> [] \<and> is_digit (hd cs))")
    case True
    then have "list_ex is_digit (c # cs)" by (cases cs) auto
    with True show ?thesis by simp
  next
    case False
    then show ?thesis using Cons.IH by auto
  qed
qed

lemma extract_number_Some:
  assumes "extract_number s = Some m"
  shows "decimal_shape m \<and> (\<exists>pre post. s = pre @ m @ post \<and> list_all (\<lambda>c. \<not> is_digit c) pre)"
  using assms
proof (induction s)
  case Nil
  then show ?case by simp
next
  case (Cons c cs)
  show ?case
  proof (cases "is_digit c \<or> (c = CHR ''.'' \<and> cs \<noteq> [] \<and> is_digit (hd cs))")
    case True
    then have m: "m = match_here (c # cs)" using Cons.prems by simp
    from match_here_shape [OF True] obtain post
      where sh: "decimal_shape m" and eq: "c # cs = m @ post"
      unfolding m by blast
    have "c # cs = [] @ m @ post" using eq by simp
    moreover have "list_all (\<lambda>c. \<not> is_digit c) []" by simp
    ultimately show ?thesis using sh by blast
  next
    case False
    then have "extract_number cs = Some m" using Cons.prems by (auto split: if_splits)
    then obtain pre post where sh: "decimal_shape m" and cs: "cs = pre @ m @ post"
      and pre: "list_all (\<lambda>c. \<not> is_digit c) pre"
      using Cons.IH by blast
    have "c # cs = (c # pre) @ m @ post" using cs by simp
    moreover have "list_all (\<lambda>c. \<not> is_digit c) (c # pre)" using pre False by simp
    ultimately show ?thesis using sh by blast
  qed
qed

text \<open>
  C3. Time coercion is all or nothing: when every cell parses directly the column of the
  parsed numbers is returned; otherwise every cell, the directly parseable ones too, goes
  through the extraction, which takes from the text of the cell the first substring of the
  form digits, optional point, digits (no digit stands before it) and gives missing when the
  text has no digit. \<^verbatim>\<open>["12h", "7.5 hrs", "bad"]\<close> becomes 12, 7.5, missing;
  \<^verbatim>\<open>["1", "2", "x"]\<close> goes through the extraction in all three entries, and in
  \<^verbatim>\<open>["-5", "x"]\<close> the directly parseable \<^verbatim>\<open>-5\<close> becomes 5.
\<close>

theorem coerce_time_all_or_nothing:
  "coerce_time f col =
     (if list_all (\<lambda>v. to_numeric v \<noteq> None) col then map to_numeric col
      else map (extract_cell f) col)
   \<and> (extract_number s = None \<longleftrightarrow> \<not> list_ex is_digit s)
   \<and> (extract_number s = Some m \<longrightarrow>
        decimal_shape m \<and> (\<exists>pre post. s = pre @ m @ post \<and> list_all (\<lambda>c. \<not> is_digit c) pre))
   \<and> (extract_number (astype_str f v) = None \<longrightarrow> extract_cell f v = None)
   \<and> coerce_time f [StrC ''12h'', StrC ''7.5 hrs'', StrC ''bad''] = [Some (Fin 12), Some (Fin 7.5), None]
   \<and> coerce_time f [StrC ''1'', StrC ''2'', StrC ''x'']
       = [extract_cell f (StrC ''1''), extract_cell f (StrC ''2''), extract_cell f (StrC ''x'')]
   \<and> coerce_time f [StrC ''1'', StrC ''2'', StrC ''x''] = [Some (Fin 1), Some (Fin 2), None]
   \<and> to_numeric (StrC ''-5'') = Some (Fin (- 5))
   \<and> coerce_time f [StrC ''-5'', StrC ''x''] = [Some (Fin 5), None]"
proof -
  have f1: "coerce_time f col =
     (if list_all (\<lambda>v. to_numeric v \<noteq> None) col then map to_numeric col
      else map (extract_cell f) col)"
    by (simp add: coerce_time_def Let_def list_all_iff)
  have f2: "extract_number s = None \<longleftrightarrow> \<not> list_ex is_digit s"
    by (rule extract_number_None)
  have f3: "extract_number s = Some m \<longrightarrow>
        decimal_shape m \<and> (\<exists>pre post. s = pre @ m @ post \<and> list_all (\<lambda>c. \<not> is_digit c) pre)"
    using extract_number_Some by blast
  have f4: "extract_number (astype_str f v) = None \<longrightarrow> extract_cell f v = None"
    by (simp add: extract_cell_def)
  have f5: "coerce_time f [StrC ''12h'', StrC ''7.5 hrs'', StrC ''bad'']
      = [Some (Fin 12), Some (Fin 7.5), None]"
    by code_simp
  have f6: "coerce_time f [StrC ''1'', StrC ''2'', StrC ''x'']
       = [extract_cell f (StrC ''1''), extract_cell f (StrC ''2''), extract_cell f (StrC ''x'')]"
    by code_simp
  have f7: "coerce_time f [StrC ''1'', StrC ''2'', StrC ''x''] = [Some (Fin 1), Some (Fin 2), None]"
    by code_simp
  have f8: "to_numeric (StrC ''-5'') = Some (Fin (- 5))"
    by code_simp
  have f9: "coerce_time f [StrC ''-5'', StrC ''x''] = [Some (Fin 5), None]"
    by code_simp
  show ?thesis
    by (intro conjI; (rule f1 f2 f3 f4 f5 f6 f7 f8 f9))
qed

theorem coerce_time_all_or_nothing_witness:
  "extract_number ''7.5 hrs'' = Some ''7.5'' \<and> decimal_shape ''7.5''
   \<and> extract_number ''bad'' = None \<and> \<not> list_ex is_digit ''bad''
   \<and> extract_cell (\<lambda>x. ''inf'') (StrC ''bad'') = None
   \<and> coerce_time (\<lambda>x. ''inf'') [IntC 1, FloatC (Fin 2.5)] = [Some (Fin 1), Some (Fin 2.5)]
   \<and> coerce_time (\<lambda>x. ''inf'') [StrC ''t=3.25h'', NaN] = [Some (Fin 3.25), None]"
proof -
  have e1: "extract_number ''7.5 hrs'' = Some ''7.5''" and e2: "extract_number ''bad'' = None"
    by (simp_all add: match_here_def is_digit_def)
  have e3: "extract_number (astype_str (\<lambda>x. ''inf'') (StrC ''bad'')) = None"
    using e2 by simp
  have a1: "list_all (\<lambda>v. to_numeric v \<noteq> None) [IntC 1, FloatC (Fin 2.5)]"
    by simp
  have a2: "\<not> list_all (\<lambda>v. to_numeric v \<noteq> None) [StrC ''t=3.25h'', NaN]"
    by simp
  have x: "extract_cell (\<lambda>x. ''inf'') (StrC ''t=3.25h'') = Some (Fin 3.25)"
    "extract_cell (\<lambda>x. ''inf'') NaN = None"
    by code_simp+
  show ?thesis
    using e1 e2 e3 a1 a2 x
      coerce_time_all_or_nothing [of "\<lambda>x. ''inf''" "[IntC 1, FloatC (Fin 2.5)]" "''7.5 hrs''" "''7.5''" "StrC ''bad''"]
      coerce_time_all_or_nothing [of "\<lambda>x. ''inf''" "[StrC ''t=3.25h'', NaN]" "''bad''" "''''" "StrC ''bad''"]
    by simp
qed

section \<open>Format detection\<close>

lemma keys_fold_update:
  "fst ` set (fold (\<lambda>c m. AList.update (lower c) c m) cols acc) = lower ` set cols \<union> fst ` set acc"
  by (induction cols arbitrary: acc) (auto simp: dom_update)

lemma keys_lower_map_of: "set (map fst (lower_map_of cols)) = lower ` set cols"
  by (simp add: lower_map_of_def keys_fold_update)

lemma has_column_iff: "has_column df name \<longleftrightarrow> name \<in> set (map fst (lower_map_of (columns df)))"
  unfolding keys_lower_map_of by (auto simp: has_column_def list_ex_iff)

lemma read_incucyte_csv_cases:
  "read_incucyte_csv f df =
     (if is_wide df then wide_format f df (lower_map_of (columns df))
      else if is_tidy df
      then tidy_format f df (lower_map_of (columns df)) (set (map fst (lower_map_of (columns df))))
      else Inl (ValueError format_message))"
  unfolding read_incucyte_csv_def Let_def is_wide_def is_tidy_def has_column_iff
  by auto

text \<open>
  C1. Format classification: a frame with a column named \<^verbatim>\<open>time\<close> up to case and without
  the full triple group, replicate, value (up to case) is normalised by the wide branch;
  otherwise a frame with time, group and value is normalised by the tidy branch; otherwise
  the result is the format-detection error, whose message names both layouts, and no table.
\<close>

theorem format_classification:
  "(is_wide df \<longrightarrow> read_incucyte_csv f df = wide_format f df (lower_map_of (columns df)))
   \<and> (is_tidy df \<longrightarrow>
        read_incucyte_csv f df
          = tidy_format f df (lower_map_of (columns df)) (set (map fst (lower_map_of (columns df)))))
   \<and> (\<not> is_wide df \<and> \<not> is_tidy df \<longrightarrow> read_incucyte_csv f df = Inl (ValueError format_message))
   \<and> contains format_message ''Wide'' \<and> contains format_message ''Tidy''"
proof -
  have "contains format_message ''Wide''" and "contains format_message ''Tidy''"
    by code_simp+
  moreover have "is_tidy df \<longrightarrow> \<not> is_wide df"
    by (simp add: is_tidy_def)
  ultimately show ?thesis
    by (simp add: read_incucyte_csv_cases)
qed

theorem format_classification_witness:
  "is_wide [(''Time'', [IntC 0]), (''A'', [IntC 1])]
   \<and> read_incucyte_csv (\<lambda>x. ''inf'') [(''Time'', [IntC 0]), (''A'', [IntC 1])]
       = Inr \<lparr>rows = [\<lparr>t_time = Fin 0, t_group = ''A'', t_replicate = ''R1'', t_value = Fin 1\<rparr>],
              categories = Some [''A'']\<rparr>
   \<and> is_tidy [(''TIME'', [IntC 0]), (''Group'', [StrC ''A'']), (''Replicate'', [StrC ''r2'']),
              (''Value'', [IntC 1])]
   \<and> read_incucyte_csv (\<lambda>x. ''inf'')
        [(''TIME'', [IntC 0]), (''Group'', [StrC ''A'']), (''Replicate'', [StrC ''r2'']),
         (''Value'', [IntC 1])]
       = Inr \<lparr>rows = [\<lparr>t_time = Fin 0, t_group = ''A'', t_replicate = ''r2'', t_value = Fin 1\<rparr>],
              categories = None\<rparr>
   \<and> \<not> is_wide [(''foo'', [IntC 0]), (''bar'', [IntC 1])]
   \<and> \<not> is_tidy [(''foo'', [IntC 0]), (''bar'', [IntC 1])]
   \<and> read_incucyte_csv (\<lambda>x. ''inf'') [(''foo'', [IntC 0]), (''bar'', [IntC 1])]
       = Inl (ValueError format_message)"
proof -
  let ?f = "\<lambda>x::fnum. ''inf''"
  let ?w = "[(''Time'', [IntC 0]), (''A'', [IntC 1])]"
  let ?t = "[(''TIME'', [IntC 0]), (''Group'', [StrC ''A'']), (''Replicate'', [StrC ''r2'']),
             (''Value'', [IntC 1])]"
  let ?n = "[(''foo'', [IntC 0]), (''bar'', [IntC 1])]"
  have w: "is_wide ?w" by code_simp
  have t: "is_tidy ?t" by code_simp
  have n: "\<not> is_wide ?n" "\<not> is_tidy ?n" by code_simp+
  have wv: "wide_format ?f ?w (lower_map_of (columns ?w))
      = Inr \<lparr>rows = [\<lparr>t_time = Fin 0, t_group = ''A'', t_replicate = ''R1'', t_value = Fin 1\<rparr>],
             categories = Some [''A'']\<rparr>"
    by code_simp
  have tv: "tidy_format ?f ?t (lower_map_of (columns ?t)) (set (map fst (lower_map_of (columns ?t))))
      = Inr \<lparr>rows = [\<lparr>t_time = Fin 0, t_group = ''A'', t_replicate = ''r2'', t_value = Fin 1\<rparr>],
             categories = None\<rparr>"
    by code_simp
  show ?thesis
    using w t n wv tv
      format_classification [of ?w ?f] format_classification [of ?t ?f]
      format_classification [of ?n ?f]
    by simp
qed

section \<open>Normalisation\<close>

text \<open>
  C2. A frame with the columns time, group and value and no replicate column does not reach
  the tidy branch: the wide test comes first and holds for it, so its group and value columns
  are melted as two series. With the header \<^verbatim>\<open>Time,Group,Value\<close> the one row
  \<^verbatim>\<open>0,A,1.5\<close> yields the single record of group \<^verbatim>\<open>Value\<close>; with the header in lower
  case \<^verbatim>\<open>melt\<close> refuses the column called \<^verbatim>\<open>value\<close>. The sentinel of the tidy branch
  is never used, since a frame that reaches that branch has a replicate column.
\<close>

theorem tidy_without_replicate_is_wide:
  "is_wide [(''Time'', [IntC 0]), (''Group'', [StrC ''A'']), (''Value'', [FloatC (Fin 1.5)])]
   \<and> \<not> is_tidy [(''Time'', [IntC 0]), (''Group'', [StrC ''A'']), (''Value'', [FloatC (Fin 1.5)])]
   \<and> read_incucyte_csv f
        [(''Time'', [IntC 0]), (''Group'', [StrC ''A'']), (''Value'', [FloatC (Fin 1.5)])]
       = Inr \<lparr>rows = [\<lparr>t_time = Fin 0, t_group = ''Value'', t_replicate = ''R1'',
                        t_value = Fin 1.5\<rparr>],
              categories = Some [''Group'', ''Value'']\<rparr>
   \<and> read_incucyte_csv f
        [(''time'', [IntC 0]), (''group'', [StrC ''A'']), (''value'', [FloatC (Fin 1.5)])]
       = Inl (ValueError melt_message)
   \<and> (is_tidy df \<and> \<not> has_column df ''replicate'') = False"
proof -
  have "(is_tidy df \<and> \<not> has_column df ''replicate'') = False"
    by (auto simp: is_tidy_def is_wide_def)
  moreover have
    "is_wide [(''Time'', [IntC 0]), (''Group'', [StrC ''A'']), (''Value'', [FloatC (Fin 1.5)])]"
    "\<not> is_tidy [(''Time'', [IntC 0]), (''Group'', [StrC ''A'']), (''Value'', [FloatC (Fin 1.5)])]"
    "read_incucyte_csv f
        [(''Time'', [IntC 0]), (''Group'', [StrC ''A'']), (''Value'', [FloatC (Fin 1.5)])]
       = Inr \<lparr>rows = [\<lparr>t_time = Fin 0, t_group = ''Value'', t_replicate = ''R1'',
                        t_value = Fin 1.5\<rparr>],
              categories = Some [''Group'', ''Value'']\<rparr>"
    "read_incucyte_csv f
        [(''time'', [IntC 0]), (''group'', [StrC ''A'']), (''value'', [FloatC (Fin 1.5)])]
       = Inl (ValueError melt_message)"
    by code_simp+
  ultimately show ?thesis by blast
qed

lemma map2_fst_only:
  "length xs = length ys \<Longrightarrow> map (\<lambda>(x, y). g x) (zip xs ys) = map g xs"
  by (induction xs ys rule: list_induct2) simp_all

text \<open>
  C5. In the wide branch the decision is made for each row from its own column name: a row
  of a column whose name matches the suffix pattern gets the base as group and the tag as
  replicate, a row of any other column gets the whole column name and the sentinel
  \<^verbatim>\<open>R1\<close>, whatever the other columns are. The columns \<^verbatim>\<open>A_R1\<close> and \<^verbatim>\<open>A\<close> both land in
  group \<^verbatim>\<open>A\<close>, with the tag \<^verbatim>\<open>R1\<close> and with the sentinel.
\<close>

theorem wide_group_per_column:
  "map (\<lambda>r. (l_group r, l_replicate r)) (wide_long f long0)
     = map (\<lambda>r. case replicate_suffix (m_col r) of
                   Some (base, tag) \<Rightarrow> (base, tag)
                 | None \<Rightarrow> (m_col r, ''R1'')) long0
   \<and> read_incucyte_csv f [(''Time'', [IntC 0]), (''A_R1'', [IntC 1]), (''A'', [IntC 3])]
       = Inr \<lparr>rows = [\<lparr>t_time = Fin 0, t_group = ''A'', t_replicate = ''R1'', t_value = Fin 1\<rparr>,
                       \<lparr>t_time = Fin 0, t_group = ''A'', t_replicate = ''R1'', t_value = Fin 3\<rparr>],
              categories = Some [''A'']\<rparr>"
proof
  have "map (\<lambda>r. (l_group r, l_replicate r)) (wide_long f long0)
      = map (\<lambda>(r, t). case replicate_suffix (m_col r) of
                   Some (base, tag) \<Rightarrow> (base, tag)
                 | None \<Rightarrow> (m_col r, ''R1'')) (zip long0 (coerce_time f (map m_time long0)))"
    by (auto simp: wide_long_def split: option.splits)
  also have "\<dots> = map (\<lambda>r. case replicate_suffix (m_col r) of
                   Some (base, tag) \<Rightarrow> (base, tag)
                 | None \<Rightarrow> (m_col r, ''R1'')) long0"
    by (rule map2_fst_only) (simp add: length_coerce_time)
  finally show "map (\<lambda>r. (l_group r, l_replicate r)) (wide_long f long0)
     = map (\<lambda>r. case replicate_suffix (m_col r) of
                   Some (base, tag) \<Rightarrow> (base, tag)
                 | None \<Rightarrow> (m_col r, ''R1'')) long0" .
next
  show "read_incucyte_csv f [(''Time'', [IntC 0]), (''A_R1'', [IntC 1]), (''A'', [IntC 3])]
       = Inr \<lparr>rows = [\<lparr>t_time = Fin 0, t_group = ''A'', t_replicate = ''R1'', t_value = Fin 1\<rparr>,
                       \<lparr>t_time = Fin 0, t_group = ''A'', t_replicate = ''R1'', t_value = Fin 3\<rparr>],
              categories = Some [''A'']\<rparr>"
    by code_simp
qed

lemma dropna_filter:
  "map (\<lambda>r. (Some (t_time r), t_group r, t_replicate r, Some (t_value r))) (dropna long)
     = map (\<lambda>r. (l_time r, l_group r, l_replicate r, l_value r))
         (filter (\<lambda>r. l_time r \<noteq> None \<and> l_value r \<noteq> None) long)"
  by (induction long) (auto simp: dropna_def map_filter_simps dropna_row_def split: option.splits)

text \<open>
  C7, amended. For every well-formed frame that normalises successfully, wide or tidy, the
  tidy table is the table of coerced records without the records whose time or value is
  missing: every record that is left has a time and a value that are numbers (not NaN),
  which may be infinite, its fields are those of the coerced record, and the records that
  are kept stay in their order. No error is raised for a dropped record and no default is put
  in its place.
\<close>

theorem dropna_policy:
  "(wf_frame df \<and> is_wide df \<and> wide_melt df (lower_map_of (columns df)) = Inr long0 \<longrightarrow>
      (\<exists>cats. read_incucyte_csv f df = Inr \<lparr>rows = dropna (wide_long f long0), categories = cats\<rparr>))
   \<and> (wf_frame df \<and> is_tidy df \<longrightarrow>
      read_incucyte_csv f df
        = Inr \<lparr>rows = dropna (tidy_long f (tidy_renamed df (lower_map_of (columns df))
                                              (set (map fst (lower_map_of (columns df)))))),
               categories = None\<rparr>)
   \<and> (wf_frame df \<and> read_incucyte_csv f df = Inr tbl \<longrightarrow> is_wide df \<or> is_tidy df)
   \<and> map (\<lambda>r. (Some (t_time r), t_group r, t_replicate r, Some (t_value r))) (dropna long)
       = map (\<lambda>r. (l_time r, l_group r, l_replicate r, l_value r))
           (filter (\<lambda>r. l_time r \<noteq> None \<and> l_value r \<noteq> None) long)"
proof (intro conjI impI)
  assume "wf_frame df \<and> is_wide df \<and> wide_melt df (lower_map_of (columns df)) = Inr long0"
  then show "\<exists>cats. read_incucyte_csv f df
      = Inr \<lparr>rows = dropna (wide_long f long0), categories = cats\<rparr>"
    by (simp add: read_incucyte_csv_cases wide_format_def)
next
  assume "wf_frame df \<and> is_tidy df"
  then show "read_incucyte_csv f df
        = Inr \<lparr>rows = dropna (tidy_long f (tidy_renamed df (lower_map_of (columns df))
                                              (set (map fst (lower_map_of (columns df)))))),
               categories = None\<rparr>"
    by (simp add: read_incucyte_csv_cases tidy_format_def is_tidy_def)
next
  assume "wf_frame df \<and> read_incucyte_csv f df = Inr tbl"
  then show "is_wide df \<or> is_tidy df"
    by (auto simp: read_incucyte_csv_cases split: if_splits)
next
  show "map (\<lambda>r. (Some (t_time r), t_group r, t_replicate r, Some (t_value r))) (dropna long)
       = map (\<lambda>r. (l_time r, l_group r, l_replicate r, l_value r))
           (filter (\<lambda>r. l_time r \<noteq> None \<and> l_value r \<noteq> None) long)"
    by (rule dropna_filter)
qed

theorem dropna_policy_witness:
  "wf_frame [(''Time'', [StrC ''0h'', StrC ''n/a'', StrC ''8h'']),
             (''A'', [StrC ''1'', StrC ''2'', StrC ''oops''])]
   \<and> is_wide [(''Time'', [StrC ''0h'', StrC ''n/a'', StrC ''8h'']),
            (''A'', [StrC ''1'', StrC ''2'', StrC ''oops''])]
   \<and> wide_melt [(''Time'', [StrC ''0h'', StrC ''n/a'', StrC ''8h'']),
                (''A'', [StrC ''1'', StrC ''2'', StrC ''oops''])]
        (lower_map_of [''Time'', ''A''])
       = Inr [\<lparr>m_time = StrC ''0h'', m_col = ''A'', m_value = StrC ''1''\<rparr>,
              \<lparr>m_time = StrC ''n/a'', m_col = ''A'', m_value = StrC ''2''\<rparr>,
              \<lparr>m_time = StrC ''8h'', m_col = ''A'', m_value = StrC ''oops''\<rparr>]
   \<and> rows (projr (read_incucyte_csv (\<lambda>x. ''inf'')
        [(''Time'', [StrC ''0h'', StrC ''n/a'', StrC ''8h'']),
         (''A'', [StrC ''1'', StrC ''2'', StrC ''oops''])]))
       = [\<lparr>t_time = Fin 0, t_group = ''A'', t_replicate = ''R1'', t_value = Fin 1\<rparr>]
   \<and> wf_frame [(''time'', [IntC 0, IntC 1]), (''group'', [StrC ''A'', StrC ''A'']),
              (''replicate'', [IntC 1, IntC 1]), (''value'', [StrC ''x'', StrC ''2''])]
   \<and> is_tidy [(''time'', [IntC 0, IntC 1]), (''group'', [StrC ''A'', StrC ''A'']),
              (''replicate'', [IntC 1, IntC 1]), (''value'', [StrC ''x'', StrC ''2''])]
   \<and> rows (projr (read_incucyte_csv (\<lambda>x. ''inf'')
        [(''time'', [IntC 0, IntC 1]), (''group'', [StrC ''A'', StrC ''A'']),
         (''replicate'', [IntC 1, IntC 1]), (''value'', [StrC ''x'', StrC ''2''])]))
       = [\<lparr>t_time = Fin 1, t_group = ''A'', t_replicate = ''1'', t_value = Fin 2\<rparr>]"
proof -
  let ?f = "\<lambda>x::fnum. ''inf''"
  let ?w = "[(''Time'', [StrC ''0h'', StrC ''n/a'', StrC ''8h'']),
             (''A'', [StrC ''1'', StrC ''2'', StrC ''oops''])]"
  let ?l = "[\<lparr>m_time = StrC ''0h'', m_col = ''A'', m_value = StrC ''1''\<rparr>,
             \<lparr>m_time = StrC ''n/a'', m_col = ''A'', m_value = StrC ''2''\<rparr>,
             \<lparr>m_time = StrC ''8h'', m_col = ''A'', m_value = StrC ''oops''\<rparr>]"
  let ?t = "[(''time'', [IntC 0, IntC 1]), (''group'', [StrC ''A'', StrC ''A'']),
             (''replicate'', [IntC 1, IntC 1]), (''value'', [StrC ''x'', StrC ''2''])]"
  have wfw: "wf_frame ?w" by code_simp
  have wft: "wf_frame ?t" by code_simp
  have w: "is_wide ?w" by code_simp
  have m: "wide_melt ?w (lower_map_of (columns ?w)) = Inr ?l" by code_simp
  have c: "columns ?w = [''Time'', ''A'']" by (simp add: columns_def)
  have dw: "dropna (wide_long ?f ?l)
      = [\<lparr>t_time = Fin 0, t_group = ''A'', t_replicate = ''R1'', t_value = Fin 1\<rparr>]"
    by code_simp
  have t: "is_tidy ?t" by code_simp
  have dt: "dropna (tidy_long ?f (tidy_renamed ?t (lower_map_of (columns ?t))
                                              (set (map fst (lower_map_of (columns ?t))))))
      = [\<lparr>t_time = Fin 1, t_group = ''A'', t_replicate = ''1'', t_value = Fin 2\<rparr>]"
    by code_simp
  from dropna_policy [where df = ?w and ?long0.0 = ?l and f = ?f] wfw w m
  obtain cats where "read_incucyte_csv ?f ?w = Inr \<lparr>rows = dropna (wide_long ?f ?l), categories = cats\<rparr>"
    by blast
  then have r1: "rows (projr (read_incucyte_csv ?f ?w))
      = [\<lparr>t_time = Fin 0, t_group = ''A'', t_replicate = ''R1'', t_value = Fin 1\<rparr>]"
    using dw by simp
  have "read_incucyte_csv ?f ?t
        = Inr \<lparr>rows = dropna (tidy_long ?f (tidy_renamed ?t (lower_map_of (columns ?t))
                                              (set (map fst (lower_map_of (columns ?t)))))),
               categories = None\<rparr>"
    using dropna_policy [where df = ?t and f = ?f] wft t by blast
  then have r2: "rows (projr (read_incucyte_csv ?f ?t))
      = [\<lparr>t_time = Fin 1, t_group = ''A'', t_replicate = ''1'', t_value = Fin 2\<rparr>]"
    using dt by simp
  show ?thesis
    using wfw wft w m c t r1 r2 by simp
qed

theorem infinite_value_counterexample:
  "read_incucyte_csv (\<lambda>x. ''inf'') [(''Time'', [IntC 0, IntC 4]), (''A'', [FloatC (Fin 1), FloatC PInf])]
     = Inr \<lparr>rows = [\<lparr>t_time = Fin 0, t_group = ''A'', t_replicate = ''R1'', t_value = Fin 1\<rparr>,
                     \<lparr>t_time = Fin 4, t_group = ''A'', t_replicate = ''R1'', t_value = PInf\<rparr>],
            categories = Some [''A'']\<rparr>"
  by code_simp

section \<open>Group order\<close>

lemma set_unique: "set (unique xs) = set xs"
  by (induction xs) auto


lemma filter_unique: "filter P (unique xs) = unique (filter P xs)"
proof (induction xs)
  case Nil
  then show ?case by simp
next
  case (Cons x xs)
  have drop: "filter P (removeAll x ys) = filter P ys" if "\<not> P x" for ys
    using that by (induction ys) auto
  have comm: "filter P (removeAll x ys) = removeAll x (filter P ys)" for ys
    by (induction ys) auto
  show ?case
  proof (cases "P x")
    case True
    then show ?thesis using Cons.IH comm by simp
  next
    case False
    then show ?thesis using Cons.IH drop by simp
  qed
qed

lemma removeAll_unique: "removeAll x (unique xs) = unique (filter (\<lambda>y. y \<noteq> x) xs)"
  by (simp add: removeAll_filter_not_eq filter_unique [symmetric] eq_commute)

lemma group_order_fold:
  "fold (\<lambda>c (order, seen).
            let base = base_group_name c
            in if base \<notin> seen then (order @ [base], insert base seen) else (order, seen))
        cols (acc, set acc)
   = (acc @ unique (filter (\<lambda>x. x \<notin> set acc) (map base_group_name cols)),
      set acc \<union> set (map base_group_name cols))"
proof (induction cols arbitrary: acc)
  case Nil
  then show ?case by simp
next
  case (Cons c cols)
  let ?x = "base_group_name c"
  show ?case
  proof (cases "?x \<in> set acc")
    case True
    then show ?thesis using Cons.IH [of acc] by auto
  next
    case False
    have "filter (\<lambda>y. y \<notin> set (acc @ [?x])) (map base_group_name cols)
        = filter (\<lambda>y. y \<noteq> ?x) (filter (\<lambda>y. y \<notin> set acc) (map base_group_name cols))"
      by (auto intro: filter_cong)
    then show ?thesis
      using False Cons.IH [of "acc @ [?x]"] by (simp add: removeAll_unique Let_def)
  qed
qed

lemma group_order_unique: "group_order cols = unique (map base_group_name cols)"
  using group_order_fold [of cols "[]"] by (simp add: group_order_def)

lemma melt_cols:
  assumes "melt df vs = Inr long0"
  shows "set (map m_col long0) \<subseteq> set vs"
  using assms by (auto simp: melt_def split: if_splits dest!: set_zip_leftD)

lemma wide_long_group:
  "set (map l_group (wide_long f long0)) \<subseteq> base_group_name ` set (map m_col long0)"
  by (auto simp: wide_long_def base_group_name_def dest!: set_zip_leftD split: option.splits)

lemma dropna_group: "map t_group (dropna long)
    = map l_group (filter (\<lambda>r. l_time r \<noteq> None \<and> l_value r \<noteq> None) long)"
  by (induction long) (auto simp: dropna_def map_filter_simps dropna_row_def split: option.splits)

text \<open>
  C6, amended. For every well-formed wide input the category sequence of \<^verbatim>\<open>group\<close> is the sequence of
  the base names of the series columns in header order, each base kept at its first place,
  and every record has one of these categories as its group. For every well-formed tidy input the
  records keep the order of the source rows, so the groups appear in the tidy table in the
  order of their first appearance among the source rows whose time and value resolve; this
  is the order of first appearance in the source rows when no row is dropped.
\<close>

theorem group_order_first_appearance:
  "(wf_frame df \<and> is_wide df \<and> read_incucyte_csv f df = Inr tbl \<longrightarrow>
      categories tbl
        = Some (unique (map base_group_name (value_cols_in_order df (lower_map_of (columns df)))))
      \<and> set (map t_group (rows tbl))
          \<subseteq> set (unique (map base_group_name (value_cols_in_order df (lower_map_of (columns df))))))
   \<and> (wf_frame df \<and> is_tidy df \<and> long = tidy_long f (tidy_renamed df (lower_map_of (columns df))
                                         (set (map fst (lower_map_of (columns df))))) \<longrightarrow>
      (\<exists>tbl. read_incucyte_csv f df = Inr tbl \<and> categories tbl = None
         \<and> map t_group (rows tbl)
             = map l_group (filter (\<lambda>r. l_time r \<noteq> None \<and> l_value r \<noteq> None) long)
         \<and> groups tbl
             = unique (map l_group (filter (\<lambda>r. l_time r \<noteq> None \<and> l_value r \<noteq> None) long))
         \<and> (list_all (\<lambda>r. l_time r \<noteq> None \<and> l_value r \<noteq> None) long \<longrightarrow>
              groups tbl = unique (map l_group long))))"
proof (intro conjI impI)
  assume a: "wf_frame df \<and> is_wide df \<and> read_incucyte_csv f df = Inr tbl"
  let ?lm = "lower_map_of (columns df)"
  let ?vs = "value_cols_in_order df ?lm"
  from a obtain long0 where m: "wide_melt df ?lm = Inr long0"
    and tbl: "tbl = \<lparr>rows = dropna (wide_long f long0), categories = Some (group_order ?vs)\<rparr>"
    by (auto simp: read_incucyte_csv_cases wide_format_def split: sum.splits)
  show "categories tbl = Some (unique (map base_group_name ?vs))"
    by (simp add: tbl group_order_unique)
  have "m_col ` set long0 \<subseteq> set ?vs"
    using m melt_cols by (auto simp: wide_melt_def Let_def)
  then have 3: "base_group_name ` m_col ` set long0 \<subseteq> base_group_name ` set ?vs"
    by (rule image_mono)
  have 2: "l_group ` set (wide_long f long0) \<subseteq> base_group_name ` m_col ` set long0"
    using wide_long_group [of f long0] by simp
  have 1: "t_group ` set (dropna (wide_long f long0)) \<subseteq> l_group ` set (wide_long f long0)"
    using arg_cong [OF dropna_group [of "wide_long f long0"], of set] by auto
  have "t_group ` set (dropna (wide_long f long0)) \<subseteq> base_group_name ` set ?vs"
    using 1 2 3 by (meson subset_trans)
  then have "set (map t_group (rows tbl)) \<subseteq> base_group_name ` set ?vs"
    by (simp add: tbl)
  then show "set (map t_group (rows tbl)) \<subseteq> set (unique (map base_group_name ?vs))"
    by (simp add: set_unique)
next
  assume a: "wf_frame df \<and> is_tidy df \<and> long = tidy_long f (tidy_renamed df (lower_map_of (columns df))
                                         (set (map fst (lower_map_of (columns df)))))"
  let ?keep = "\<lambda>r. l_time r \<noteq> None \<and> l_value r \<noteq> None"
  let ?tbl = "\<lparr>rows = dropna long, categories = None\<rparr> :: fnum tidy_table"
  have r: "read_incucyte_csv f df = Inr ?tbl"
    using a by (simp add: read_incucyte_csv_cases tidy_format_def is_tidy_def)
  have g: "map t_group (rows ?tbl) = map l_group (filter ?keep long)"
    by (simp add: dropna_group)
  have u: "groups ?tbl = unique (map l_group (filter ?keep long))"
    by (simp add: groups_def dropna_group)
  have "list_all ?keep long \<longrightarrow> groups ?tbl = unique (map l_group long)"
    using u by (simp add: list_all_iff)
  with r g u show "\<exists>tbl. read_incucyte_csv f df = Inr tbl \<and> categories tbl = None
         \<and> map t_group (rows tbl) = map l_group (filter ?keep long)
         \<and> groups tbl = unique (map l_group (filter ?keep long))
         \<and> (list_all ?keep long \<longrightarrow> groups tbl = unique (map l_group long))"
    by (intro exI [of _ ?tbl]) simp
qed

theorem group_order_first_appearance_witness:
  "wf_frame [(''B_R1'', [IntC 1]), (''Time'', [IntC 0]), (''A'', [IntC 2]), (''B_R2'', [StrC ''x''])]
   \<and> wf_frame [(''time'', [IntC 0, IntC 1, IntC 2]), (''group'', [StrC ''X'', StrC ''Y'', StrC ''X'']),
              (''replicate'', [IntC 1, IntC 1, IntC 1]), (''value'', [IntC 5, IntC 6, IntC 7])]
   \<and> is_wide [(''B_R1'', [IntC 1]), (''Time'', [IntC 0]), (''A'', [IntC 2]), (''B_R2'', [StrC ''x''])]
   \<and> categories (projr (read_incucyte_csv (\<lambda>x. ''inf'')
        [(''B_R1'', [IntC 1]), (''Time'', [IntC 0]), (''A'', [IntC 2]), (''B_R2'', [StrC ''x''])]))
       = Some [''B'', ''A'']
   \<and> is_tidy [(''time'', [IntC 0, IntC 1, IntC 2]), (''group'', [StrC ''X'', StrC ''Y'', StrC ''X'']),
              (''replicate'', [IntC 1, IntC 1, IntC 1]), (''value'', [IntC 5, IntC 6, IntC 7])]
   \<and> groups (projr (read_incucyte_csv (\<lambda>x. ''inf'')
        [(''time'', [IntC 0, IntC 1, IntC 2]), (''group'', [StrC ''X'', StrC ''Y'', StrC ''X'']),
         (''replicate'', [IntC 1, IntC 1, IntC 1]), (''value'', [IntC 5, IntC 6, IntC 7])]))
       = [''X'', ''Y'']"
proof -
  let ?f = "\<lambda>x::fnum. ''inf''"
  let ?w = "[(''B_R1'', [IntC 1]), (''Time'', [IntC 0]), (''A'', [IntC 2]), (''B_R2'', [StrC ''x''])]"
  let ?t = "[(''time'', [IntC 0, IntC 1, IntC 2]), (''group'', [StrC ''X'', StrC ''Y'', StrC ''X'']),
             (''replicate'', [IntC 1, IntC 1, IntC 1]), (''value'', [IntC 5, IntC 6, IntC 7])]"
  let ?long = "tidy_long ?f (tidy_renamed ?t (lower_map_of (columns ?t))
                               (set (map fst (lower_map_of (columns ?t)))))"
  have wfw: "wf_frame ?w" by code_simp
  have wft: "wf_frame ?t" by code_simp
  have w: "is_wide ?w" by code_simp
  have rw: "read_incucyte_csv ?f ?w = Inr (projr (read_incucyte_csv ?f ?w))" by code_simp
  have vs: "unique (map base_group_name (value_cols_in_order ?w (lower_map_of (columns ?w))))
      = [''B'', ''A'']"
    by code_simp
  have t: "is_tidy ?t" by code_simp
  have all: "list_all (\<lambda>r. l_time r \<noteq> None \<and> l_value r \<noteq> None) ?long" by code_simp
  have u: "unique (map l_group ?long) = [''X'', ''Y'']" by code_simp
  have 1: "categories (projr (read_incucyte_csv ?f ?w)) = Some [''B'', ''A'']"
    using group_order_first_appearance [where df = ?w and f = ?f
        and tbl = "projr (read_incucyte_csv ?f ?w)"] wfw w rw vs
    by simp
  obtain tbl where "read_incucyte_csv ?f ?t = Inr tbl" and "groups tbl = unique (map l_group ?long)"
    using group_order_first_appearance [where df = ?t and f = ?f and long = ?long] wft t all
    by blast
  then have 2: "groups (projr (read_incucyte_csv ?f ?t)) = [''X'', ''Y'']"
    using u by simp
  show ?thesis using wfw wft w t 1 2 by simp
qed

theorem group_order_dropped_row_counterexample:
  "wf_frame [(''Time'', [IntC 0, IntC 0, IntC 1]), (''Group'', [StrC ''X'', StrC ''Y'', StrC ''X'']),
            (''Replicate'', [StrC ''R1'', StrC ''R1'', StrC ''R1'']),
            (''Value'', [StrC ''bad'', StrC ''1'', StrC ''2''])]
   \<and> is_tidy [(''Time'', [IntC 0, IntC 0, IntC 1]), (''Group'', [StrC ''X'', StrC ''Y'', StrC ''X'']),
            (''Replicate'', [StrC ''R1'', StrC ''R1'', StrC ''R1'']),
            (''Value'', [StrC ''bad'', StrC ''1'', StrC ''2''])]
   \<and> unique (map (astype_str (\<lambda>x. ''inf'')) [StrC ''X'', StrC ''Y'', StrC ''X'']) = [''X'', ''Y'']
   \<and> read_incucyte_csv (\<lambda>x. ''inf'')
        [(''Time'', [IntC 0, IntC 0, IntC 1]), (''Group'', [StrC ''X'', StrC ''Y'', StrC ''X'']),
         (''Replicate'', [StrC ''R1'', StrC ''R1'', StrC ''R1'']),
         (''Value'', [StrC ''bad'', StrC ''1'', StrC ''2''])]
       = Inr \<lparr>rows = [\<lparr>t_time = Fin 0, t_group = ''Y'', t_replicate = ''R1'', t_value = Fin 1\<rparr>,
                       \<lparr>t_time = Fin 1, t_group = ''X'', t_replicate = ''R1'', t_value = Fin 2\<rparr>],
              categories = None\<rparr>
   \<and> groups (projr (read_incucyte_csv (\<lambda>x. ''inf'')
        [(''Time'', [IntC 0, IntC 0, IntC 1]), (''Group'', [StrC ''X'', StrC ''Y'', StrC ''X'']),
         (''Replicate'', [StrC ''R1'', StrC ''R1'', StrC ''R1'']),
         (''Value'', [StrC ''bad'', StrC ''1'', StrC ''2''])]))
       = [''Y'', ''X'']"
  by code_simp

section \<open>Aggregation\<close>

lemma map2_map_same:
  "map (\<lambda>(r, t). g r t) (zip rs (map h rs)) = map (\<lambda>r. g r (h r)) rs"
  by (induction rs) simp_all

lemma grouping_key_bucket:
  "grouping_key interval_hours r =
     (if (case interval_hours of None \<Rightarrow> False | Some i \<Rightarrow> 0 < i)
      then (t_group r, time_bucket (the interval_hours) (t_time r))
      else (t_group r, t_time r))"
  by (simp add: grouping_key_def time_bucket_def split: option.splits)

lemma fst_grouping_key: "fst (grouping_key i r) = t_group r"
  by (simp add: grouping_key_def split: option.splits)

lemma aggregate_mean_sd_unfold:
  assumes "df < length h"
  shows "aggregate_mean_sd ob h df interval_hours =
     Some (groupby_agg ob (categories (h ! df))
             (map (\<lambda>r. (grouping_key interval_hours r, t_value r)) (rows (h ! df))),
           h @ [if (case interval_hours of None \<Rightarrow> False | Some i \<Rightarrow> 0 < i)
                then (h ! df)\<lparr>time_bin :=
                       Some (map (\<lambda>r. time_bucket (the interval_hours) (t_time r))
                                 (rows (h ! df)))\<rparr>
                else h ! df])"
proof (cases "case interval_hours of None \<Rightarrow> False | Some i \<Rightarrow> 0 < i")
  case True
  then show ?thesis
    using assms
    by (simp add: aggregate_mean_sd_def copy_def Let_def map2_map_same grouping_key_bucket)
next
  case False
  have "map (\<lambda>(r, t). ((t_group r, t), t_value r)) (zip (rows (h ! df)) (map t_time (rows (h ! df))))
      = map (\<lambda>r. ((t_group r, t_time r), t_value r)) (rows (h ! df))"
    by (rule map2_map_same)
  with False show ?thesis
    using assms
    by (simp add: aggregate_mean_sd_def copy_def Let_def grouping_key_bucket)
qed

lemma stats_of_unfold:
  "stats_of ob fr interval_hours =
     groupby_agg ob (categories fr)
       (map (\<lambda>r. (grouping_key interval_hours r, t_value r)) (rows fr))"
  using aggregate_mean_sd_unfold [of 0 "[fr]" ob interval_hours]
  by (simp add: stats_of_def)


lemma result_keys_observed:
  assumes "ob \<or> cats = None"
  shows "set (result_keys ob cats ks) = set ks"
  using assms by (cases cats) (auto simp: result_keys_def set_unique)

lemma result_keys_superset:
  assumes "case cats of None \<Rightarrow> True | Some cs \<Rightarrow> fst ` set ks \<subseteq> set cs"
  shows "set ks \<subseteq> set (result_keys ob cats ks)"
proof (cases "ob \<or> cats = None")
  case True
  then show ?thesis by (simp add: result_keys_observed)
next
  case False
  then obtain cs where c: "cats = Some cs" and ob: "\<not> ob" by (cases cats) auto
  then have sub: "fst ` set ks \<subseteq> set cs" using assms by simp
  have "set (result_keys ob cats ks) = set cs \<times> snd ` set ks"
    using c ob by (simp add: result_keys_def set_unique)
  moreover have "set ks \<subseteq> set cs \<times> snd ` set ks"
  proof
    fix k assume "k \<in> set ks"
    then have "fst k \<in> set cs" and "snd k \<in> snd ` set ks" using sub by auto
    then show "k \<in> set cs \<times> snd ` set ks" by (cases k) simp
  qed
  ultimately show ?thesis by simp
qed

lemma groupby_agg_keys:
  "map (\<lambda>s. (s_group s, s_time s)) (groupby_agg ob cats kvs)
     = sort_key (\<lambda>k. (group_rank cats (fst k), snd k)) (result_keys ob cats (map fst kvs))"
  by (simp add: groupby_agg_def Let_def comp_def)

lemma groupby_agg_row:
  assumes "s \<in> set (groupby_agg ob cats kvs)"
  shows "s_mean s = mean (map snd (filter (\<lambda>kv. fst kv = (s_group s, s_time s)) kvs))
    \<and> s_sd s = std (map snd (filter (\<lambda>kv. fst kv = (s_group s, s_time s)) kvs))
    \<and> s_n s = length (filter (\<lambda>kv. fst kv = (s_group s, s_time s)) kvs)"
proof -
  from assms obtain k where
    "s = \<lparr>s_group = fst k, s_time = snd k,
          s_mean = mean (map snd (filter (\<lambda>kv. fst kv = k) kvs)),
          s_sd = std (map snd (filter (\<lambda>kv. fst kv = k) kvs)),
          s_n = length (map snd (filter (\<lambda>kv. fst kv = k) kvs))\<rparr>"
    unfolding groupby_agg_def Let_def by auto
  then show ?thesis by simp
qed

lemma values_of_key:
  "map snd (filter (\<lambda>kv. fst kv = k) (map (\<lambda>r. (g r, v r)) rs)) = map v (filter (\<lambda>r. g r = k) rs)"
  by (induction rs) simp_all

lemma stats_keys:
  "map (\<lambda>s. (s_group s, s_time s)) (stats_of ob fr i)
     = sort_key (\<lambda>k. (group_rank (categories fr) (fst k), snd k))
         (result_keys ob (categories fr) (map (grouping_key i) (rows fr)))"
  unfolding stats_of_unfold groupby_agg_keys by (simp add: comp_def)


lemma stats_keys_superset:
  assumes "categorical_ok fr"
  shows "grouping_key i ` set (rows fr) \<subseteq> set (map (\<lambda>s. (s_group s, s_time s)) (stats_of ob fr i))"
proof -
  have "case categories fr of None \<Rightarrow> True
        | Some cs \<Rightarrow> fst ` set (map (grouping_key i) (rows fr)) \<subseteq> set cs"
    using assms
    by (auto simp: categorical_ok_def list_all_iff fst_grouping_key split: option.splits)
  then have "set (map (grouping_key i) (rows fr))
      \<subseteq> set (result_keys ob (categories fr) (map (grouping_key i) (rows fr)))"
    by (rule result_keys_superset)
  then show ?thesis unfolding stats_keys by (simp only: set_sort set_map)
qed


lemma stats_row:
  assumes "s \<in> set (stats_of ob fr i)"
  shows "s_mean s = mean (key_values i (rows fr) (s_group s, s_time s))
    \<and> s_sd s = std (key_values i (rows fr) (s_group s, s_time s))
    \<and> s_n s = length (key_values i (rows fr) (s_group s, s_time s))"
proof -
  define k where "k = (s_group s, s_time s)"
  define kvs where "kvs = map (\<lambda>r. (grouping_key i r, t_value r)) (rows fr)"
  have "s \<in> set (groupby_agg ob (categories fr) kvs)"
    using assms unfolding stats_of_unfold kvs_def .
  from groupby_agg_row [OF this]
  have m: "s_mean s = mean (map snd (filter (\<lambda>kv. fst kv = k) kvs))"
    and d: "s_sd s = std (map snd (filter (\<lambda>kv. fst kv = k) kvs))"
    and n: "s_n s = length (filter (\<lambda>kv. fst kv = k) kvs)"
    unfolding k_def by blast+
  have kv: "map snd (filter (\<lambda>kv. fst kv = k) kvs) = key_values i (rows fr) k"
    unfolding kvs_def key_values_def by (rule values_of_key)
  have "length (filter (\<lambda>kv. fst kv = k) kvs) = length (map snd (filter (\<lambda>kv. fst kv = k) kvs))"
    by (simp only: length_map)
  then have len: "length (filter (\<lambda>kv. fst kv = k) kvs) = length (key_values i (rows fr) k)"
    unfolding kv .
  have "s_mean s = mean (key_values i (rows fr) k)
    \<and> s_sd s = std (key_values i (rows fr) k)
    \<and> s_n s = length (key_values i (rows fr) k)"
    using m d n kv len by simp
  then show ?thesis unfolding k_def .
qed





lemma stats_record_of_row:
  assumes "categorical_ok fr" and "r \<in> set (rows fr)"
  shows "\<exists>s \<in> set (stats_of ob fr i).
           (s_group s, s_time s) = grouping_key i r
           \<and> s_n s = length (filter (\<lambda>q. grouping_key i q = grouping_key i r) (rows fr))"
proof -
  have "grouping_key i r \<in> grouping_key i ` set (rows fr)"
    using assms(2) by (rule imageI)
  then have "grouping_key i r \<in> set (map (\<lambda>s. (s_group s, s_time s)) (stats_of ob fr i))"
    using stats_keys_superset [OF assms(1), of i ob] by blast
  then obtain s where s: "s \<in> set (stats_of ob fr i)"
    and k: "(s_group s, s_time s) = grouping_key i r"
    by auto
  have "s_n s = length (key_values i (rows fr) (s_group s, s_time s))"
    using stats_row [OF s] by blast
  then have "s_n s = length (filter (\<lambda>q. grouping_key i q = grouping_key i r) (rows fr))"
    unfolding k key_values_def by (simp only: length_map)
  with s k show ?thesis by blast
qed

lemma stats_of_no_binning:
  assumes "i \<le> 0"
  shows "stats_of ob fr (Some i) = stats_of ob fr None"
proof -
  have "grouping_key (Some i) = grouping_key None"
    using assms by (auto simp: grouping_key_def fun_eq_iff)
  then show ?thesis by (simp add: stats_of_unfold)
qed

text \<open>
  C9. With an interval that is present and positive the grouping key of a record is its
  group with the bucket \<open>floor (time / interval_hours) * interval_hours\<close>: the stats table
  has a record with that key, and its \<open>n\<close> counts the records of the same group and bucket.
  With no interval, or with the interval 0, the key is the group with the raw time and there
  is no bucketing. For the interval 4 the times 5.9 and 7.99 fall into the bucket 4 and the
  time 8 into the bucket 8.
\<close>

theorem grouping_key_bucketing:
  assumes "categorical_ok fr" and "r \<in> set (rows fr)"
  shows "(0 < i \<longrightarrow>
      (\<exists>s \<in> set (stats_of ob fr (Some i)).
         s_group s = t_group r \<and> s_time s = real_of_int \<lfloor>t_time r / i\<rfloor> * i
         \<and> s_n s = length (filter (\<lambda>q. t_group q = t_group r
               \<and> real_of_int \<lfloor>t_time q / i\<rfloor> * i = real_of_int \<lfloor>t_time r / i\<rfloor> * i) (rows fr))))
   \<and> (\<exists>s \<in> set (stats_of ob fr None).
         s_group s = t_group r \<and> s_time s = t_time r
         \<and> s_n s = length (filter (\<lambda>q. t_group q = t_group r \<and> t_time q = t_time r) (rows fr)))
   \<and> stats_of ob fr (Some 0) = stats_of ob fr None
   \<and> time_bucket 4 5.9 = 4 \<and> time_bucket 4 7.99 = 4 \<and> time_bucket 4 8 = 8"
proof (intro conjI impI)
  assume pos: "0 < i"
  have gk: "grouping_key (Some i) q = (t_group q, real_of_int \<lfloor>t_time q / i\<rfloor> * i)" for q
    using pos by (simp add: grouping_key_def)
  from stats_record_of_row [OF assms, of ob "Some i"]
  obtain s where s: "s \<in> set (stats_of ob fr (Some i))"
    and k: "(s_group s, s_time s) = grouping_key (Some i) r"
    and n: "s_n s = length (filter (\<lambda>q. grouping_key (Some i) q = grouping_key (Some i) r) (rows fr))"
    by blast
  have "s_group s = t_group r" and "s_time s = real_of_int \<lfloor>t_time r / i\<rfloor> * i"
    using k unfolding gk by simp_all
  moreover have "s_n s = length (filter (\<lambda>q. t_group q = t_group r
               \<and> real_of_int \<lfloor>t_time q / i\<rfloor> * i = real_of_int \<lfloor>t_time r / i\<rfloor> * i) (rows fr))"
    using n unfolding gk by simp
  ultimately show "\<exists>s \<in> set (stats_of ob fr (Some i)).
         s_group s = t_group r \<and> s_time s = real_of_int \<lfloor>t_time r / i\<rfloor> * i
         \<and> s_n s = length (filter (\<lambda>q. t_group q = t_group r
               \<and> real_of_int \<lfloor>t_time q / i\<rfloor> * i = real_of_int \<lfloor>t_time r / i\<rfloor> * i) (rows fr))"
    using s by blast
next
  have gk: "grouping_key None q = (t_group q, t_time q)" for q
    by (simp add: grouping_key_def)
  from stats_record_of_row [OF assms, of ob None]
  obtain s where s: "s \<in> set (stats_of ob fr None)"
    and k: "(s_group s, s_time s) = grouping_key None r"
    and n: "s_n s = length (filter (\<lambda>q. grouping_key None q = grouping_key None r) (rows fr))"
    by blast
  have "s_group s = t_group r" and "s_time s = t_time r"
    using k unfolding gk by simp_all
  moreover have "s_n s = length (filter (\<lambda>q. t_group q = t_group r \<and> t_time q = t_time r) (rows fr))"
    using n unfolding gk by simp
  ultimately show "\<exists>s \<in> set (stats_of ob fr None).
         s_group s = t_group r \<and> s_time s = t_time r
         \<and> s_n s = length (filter (\<lambda>q. t_group q = t_group r \<and> t_time q = t_time r) (rows fr))"
    using s by blast
next
  show "stats_of ob fr (Some 0) = stats_of ob fr None"
    by (rule stats_of_no_binning) simp
next
  show "time_bucket 4 5.9 = 4" "time_bucket 4 7.99 = 4" "time_bucket 4 8 = 8"
    by (simp_all add: time_bucket_def)
qed

theorem grouping_key_bucketing_witness:
  "categorical_ok \<lparr>rows = [\<lparr>t_time = 5.9, t_group = ''A'', t_replicate = ''R1'', t_value = 1\<rparr>,
                           \<lparr>t_time = 7.99, t_group = ''A'', t_replicate = ''R1'', t_value = 3\<rparr>,
                           \<lparr>t_time = 8, t_group = ''A'', t_replicate = ''R1'', t_value = 5\<rparr>],
                   categories = None, time_bin = None\<rparr>
   \<and> (\<exists>s \<in> set (stats_of True
          \<lparr>rows = [\<lparr>t_time = 5.9, t_group = ''A'', t_replicate = ''R1'', t_value = 1\<rparr>,
                    \<lparr>t_time = 7.99, t_group = ''A'', t_replicate = ''R1'', t_value = 3\<rparr>,
                    \<lparr>t_time = 8, t_group = ''A'', t_replicate = ''R1'', t_value = 5\<rparr>],
            categories = None, time_bin = None\<rparr> (Some 4)).
         s_group s = ''A'' \<and> s_time s = 4 \<and> s_n s = 2)
   \<and> stats_of True
          \<lparr>rows = [\<lparr>t_time = 5.9, t_group = ''A'', t_replicate = ''R1'', t_value = 1\<rparr>,
                    \<lparr>t_time = 7.99, t_group = ''A'', t_replicate = ''R1'', t_value = 3\<rparr>,
                    \<lparr>t_time = 8, t_group = ''A'', t_replicate = ''R1'', t_value = 5\<rparr>],
            categories = None, time_bin = None\<rparr> (Some 4)
       = [\<lparr>s_group = ''A'', s_time = 4, s_mean = Some 2, s_sd = Some (sqrt 2), s_n = 2\<rparr>,
          \<lparr>s_group = ''A'', s_time = 8, s_mean = Some 5, s_sd = None, s_n = 1\<rparr>]"
proof -
  let ?r = "\<lparr>t_time = 5.9, t_group = ''A'', t_replicate = ''R1'', t_value = 1\<rparr> :: real tidy_record"
  let ?fr = "\<lparr>rows = [?r,
                      \<lparr>t_time = 7.99, t_group = ''A'', t_replicate = ''R1'', t_value = 3\<rparr>,
                      \<lparr>t_time = 8, t_group = ''A'', t_replicate = ''R1'', t_value = 5\<rparr>],
               categories = None, time_bin = None\<rparr> :: tidy_frame"
  have ok: "categorical_ok ?fr" by (simp add: categorical_ok_def)
  have r: "?r \<in> set (rows ?fr)" by simp
  have b: "real_of_int \<lfloor>t_time ?r / 4\<rfloor> * 4 = 4" by simp
  have c: "length (filter (\<lambda>q. t_group q = t_group ?r
               \<and> real_of_int \<lfloor>t_time q / 4\<rfloor> * 4 = real_of_int \<lfloor>t_time ?r / 4\<rfloor> * 4) (rows ?fr)) = 2"
    by simp
  have "\<exists>s \<in> set (stats_of True ?fr (Some 4)).
         s_group s = t_group ?r \<and> s_time s = real_of_int \<lfloor>t_time ?r / 4\<rfloor> * 4
         \<and> s_n s = length (filter (\<lambda>q. t_group q = t_group ?r
               \<and> real_of_int \<lfloor>t_time q / 4\<rfloor> * 4 = real_of_int \<lfloor>t_time ?r / 4\<rfloor> * 4) (rows ?fr))"
    using grouping_key_bucketing [OF ok r, of 4 True] by simp
  then have 1: "\<exists>s \<in> set (stats_of True ?fr (Some 4)). s_group s = ''A'' \<and> s_time s = 4 \<and> s_n s = 2"
    unfolding c b by (simp add: eval_nat_numeral)
  have 2: "stats_of True ?fr (Some 4)
       = [\<lparr>s_group = ''A'', s_time = 4, s_mean = Some 2, s_sd = Some (sqrt 2), s_n = 2\<rparr>,
          \<lparr>s_group = ''A'', s_time = 8, s_mean = Some 5, s_sd = None, s_n = 1\<rparr>]"
    by (simp add: stats_of_unfold groupby_agg_def result_keys_def grouping_key_def mean_def
          std_def group_rank_def)
  show ?thesis using ok 1 2 by blast
qed

text \<open>
  C10. The aggregator leaves its input alone: for every heap, every frame \<open>df\<close> in it and
  every interval setting the call returns a stats table and a heap in which the object of
  \<open>df\<close> and every other object that existed before are what they were; the only change is
  the new object of the copy, which alone receives the \<^verbatim>\<open>time_bin\<close> column. The stats table
  is computed from the content of \<open>df\<close> and the interval alone.
\<close>

theorem aggregate_mean_sd_frame:
  assumes "df < length h"
  shows "\<exists>st h'. aggregate_mean_sd ob h df i = Some (st, h')
     \<and> h' ! df = h ! df \<and> take (length h) h' = h \<and> length h' = Suc (length h)
     \<and> rows (h' ! length h) = rows (h ! df)
     \<and> st = stats_of ob (h ! df) i"
proof -
  define c where "c = (if (case i of None \<Rightarrow> False | Some j \<Rightarrow> 0 < j)
                then (h ! df)\<lparr>time_bin :=
                       Some (map (\<lambda>r. time_bucket (the i) (t_time r)) (rows (h ! df)))\<rparr>
                else h ! df)"
  have a: "aggregate_mean_sd ob h df i = Some (stats_of ob (h ! df) i, h @ [c])"
    unfolding c_def stats_of_unfold using aggregate_mean_sd_unfold [OF assms] by simp
  have "(h @ [c]) ! df = h ! df"
    using assms by (simp add: nth_append)
  moreover have "take (length h) (h @ [c]) = h" by simp
  moreover have "length (h @ [c]) = Suc (length h)" by simp
  moreover have "rows ((h @ [c]) ! length h) = rows (h ! df)"
    by (simp add: c_def)
  ultimately show ?thesis using a by blast
qed

theorem aggregate_mean_sd_frame_witness:
  "(0::nat) < length [\<lparr>rows = [\<lparr>t_time = 5, t_group = ''A'', t_replicate = ''R1'', t_value = 1\<rparr>],
                      categories = None, time_bin = None\<rparr>]
   \<and> aggregate_mean_sd True
        [\<lparr>rows = [\<lparr>t_time = 5, t_group = ''A'', t_replicate = ''R1'', t_value = 1\<rparr>],
          categories = None, time_bin = None\<rparr>] 0 (Some 4)
       = Some ([\<lparr>s_group = ''A'', s_time = 4, s_mean = Some 1, s_sd = None, s_n = 1\<rparr>],
               [\<lparr>rows = [\<lparr>t_time = 5, t_group = ''A'', t_replicate = ''R1'', t_value = 1\<rparr>],
                 categories = None, time_bin = None\<rparr>,
                \<lparr>rows = [\<lparr>t_time = 5, t_group = ''A'', t_replicate = ''R1'', t_value = 1\<rparr>],
                 categories = None, time_bin = Some [4]\<rparr>])
   \<and> snd (the (aggregate_mean_sd True
        [\<lparr>rows = [\<lparr>t_time = 5, t_group = ''A'', t_replicate = ''R1'', t_value = 1\<rparr>],
          categories = None, time_bin = None\<rparr>] 0 (Some 4))) ! 0
       = \<lparr>rows = [\<lparr>t_time = 5, t_group = ''A'', t_replicate = ''R1'', t_value = 1\<rparr>],
          categories = None, time_bin = None\<rparr>"
proof -
  let ?fr = "\<lparr>rows = [\<lparr>t_time = 5, t_group = ''A'', t_replicate = ''R1'', t_value = 1\<rparr>],
               categories = None, time_bin = None\<rparr> :: tidy_frame"
  have l: "(0::nat) < length [?fr]" by simp
  have e: "aggregate_mean_sd True [?fr] 0 (Some 4)
       = Some ([\<lparr>s_group = ''A'', s_time = 4, s_mean = Some 1, s_sd = None, s_n = 1\<rparr>],
               [?fr, ?fr\<lparr>time_bin := Some [4]\<rparr>])"
    by (simp add: aggregate_mean_sd_def copy_def groupby_agg_def result_keys_def time_bucket_def
          mean_def std_def)
  obtain st h' where "aggregate_mean_sd True [?fr] 0 (Some 4) = Some (st, h')"
    and "h' ! 0 = [?fr] ! 0"
    using aggregate_mean_sd_frame [OF l, of True "Some 4"] by blast
  then have "snd (the (aggregate_mean_sd True [?fr] 0 (Some 4))) ! 0 = ?fr"
    by simp
  then show ?thesis using l e by simp
qed

end
